theory Spec2Isabelle
  imports Main
begin

section \<open>Data model\<close>

text \<open>
  The resolver of \<^verbatim>\<open>main.py\<close> walks the DNS hierarchy from the root servers.
  Its collaborators (the dnspython message codec and UDP transport) are not part
  of the program; they appear here as the fields of an environment record, the
  codec as total functions: what it raises on malformed text or bytes is not
  modelled. The program runs one request at a time.

  Record types are the values of \<^verbatim>\<open>dns.rdatatype\<close> that the program
  distinguishes.
\<close>

datatype rdatatype = A | AAAA | CNAME | Other_rdatatype nat

text \<open>
  A name is its tuple of labels (\<^verbatim>\<open>name.labels\<close>); a label is a byte string.
  An absolute name ends in the empty root label.
\<close>

type_synonym label = string
type_synonym dns_name = "label list"

text \<open>
  One rdata of an RRset: the program reads its \<^verbatim>\<open>rdtype\<close> and its textual
  form \<^verbatim>\<open>str(rdata)\<close> (an address for A/AAAA, the target for CNAME).
\<close>

record rdata =
  rdata_rdtype :: rdatatype
  rdata_str :: string

text \<open>
  An RRset of a parsed response. The codec creates an RRset only together with
  its first rdata, so \<^verbatim>\<open>rrset[0]\<close> always exists; the type says so.
\<close>

record rrset =
  rrset_name :: dns_name
  rrset_rdtype :: rdatatype
  rrset_first :: rdata
  rrset_rest :: "rdata list"

definition rrset_items :: "rrset \<Rightarrow> rdata list" where
  "rrset_items rs = rrset_first rs # rrset_rest rs"

record message =
  answer :: "rrset list"
  additional :: "rrset list"

text \<open>A datagram handed to the transport: queried name, queried type, server address.\<close>

type_synonym query = "dns_name \<times> rdatatype \<times> string"

datatype transport_error = Timeout | Transport_exception string | RecursionError

text \<open>
  The collaborators. \<open>udp\<close> is \<^verbatim>\<open>dns.query.udp\<close>: it either returns a message or
  raises; its answer may depend on everything sent before, so that a server may
  answer differently over time. \<open>from_text\<close>, \<open>to_text\<close> and \<open>decode\<close> are
  \<^verbatim>\<open>dns.name.from_text\<close>, \<^verbatim>\<open>str(name)\<close> and \<^verbatim>\<open>bytes.decode\<close>.

  \<^verbatim>\<open>find\<close> and \<^verbatim>\<open>find_recursive\<close> call each other with no bound of their own,
  but the interpreter bounds the nesting of calls. The transport is the deepest
  call that the program makes, so the limit is reached inside it: from the
  nesting depth \<open>depth_limit\<close> on (counted in calls of \<^verbatim>\<open>find\<close> and
  \<^verbatim>\<open>find_recursive\<close> below the first), \<^verbatim>\<open>dns.query.udp\<close> raises
  \<^verbatim>\<open>RecursionError\<close>, inside the \<^verbatim>\<open>try\<close> of \<^verbatim>\<open>make_request\<close>.
\<close>

record env =
  udp :: "query list \<Rightarrow> query \<Rightarrow> transport_error + message"
  from_text :: "string \<Rightarrow> dns_name"
  to_text :: "dns_name \<Rightarrow> string"
  decode :: "label \<Rightarrow> string"
  depth_limit :: nat

definition call_udp :: "env \<Rightarrow> nat \<Rightarrow> query list \<Rightarrow> query \<Rightarrow> transport_error + message" where
  "call_udp e depth history query =
     (if depth_limit e < depth then Inl RecursionError else udp e history query)"

text \<open>
  The process state: the global \<^verbatim>\<open>domain_cache\<close> (a dict of dicts; a cached
  value may be \<^verbatim>\<open>None\<close>), and two histories that the program does not hold but
  an observer of the network does: every request handed to the transport, in
  order, and the (domain, root server) pairs for which the root loop of
  \<^verbatim>\<open>find\<close> made one.
\<close>

record state =
  domain_cache :: "string \<rightharpoonup> (string \<rightharpoonup> message option)"
  sent :: "query list"
  root_sent :: "(string \<times> string) list"

definition initial_state :: state where
  "initial_state = \<lparr>domain_cache = Map.empty, sent = [], root_sent = []\<rparr>"

record host_entry =
  name :: string
  address :: string

type_synonym result_set = "(string \<times> host_entry list) list"

definition ROOT_SERVERS :: "string list" where
  "ROOT_SERVERS =
    [''198.41.0.4'', ''199.9.14.201'', ''192.33.4.12'', ''199.7.91.13'',
     ''192.203.230.10'', ''192.5.5.241'', ''192.112.36.4'', ''198.97.190.53'',
     ''192.36.148.17'', ''192.58.128.30'', ''193.0.14.129'', ''199.7.83.42'',
     ''202.12.27.33'']"

section \<open>The program\<close>

subsection \<open>\<^verbatim>\<open>get_domain_key\<close>\<close>

definition get_domain_key :: "env \<Rightarrow> dns_name \<Rightarrow> string" where
  "get_domain_key e target_name =
     (let labels = target_name
      in if length labels < 2 then to_text e target_name
         else decode e (labels ! (length labels - 2)))"

subsection \<open>\<^verbatim>\<open>make_request\<close>\<close>

text \<open>
  Every exception of the transport is caught and becomes \<^verbatim>\<open>None\<close>. \<open>depth\<close> is
  the nesting depth of the caller.
\<close>

definition make_request ::
  "env \<Rightarrow> nat \<Rightarrow> dns_name \<Rightarrow> rdatatype \<Rightarrow> string \<Rightarrow> state \<Rightarrow> message option \<times> state" where
  "make_request e depth target_name qtype ip_addr st =
     (let query = (target_name, qtype, ip_addr);
          response = (case call_udp e depth (sent st) query of Inr r \<Rightarrow> Some r | Inl err \<Rightarrow> None)
      in (response, st\<lparr>sent := sent st @ [query]\<rparr>))"

subsection \<open>The loops over the additional section\<close>

text \<open>
  A call of \<^verbatim>\<open>find\<close> or \<^verbatim>\<open>find_recursive\<close> yields \<open>None\<close> when it never
  returns, and \<open>Some (r, st)\<close> when it returns \<open>r\<close> (\<^verbatim>\<open>None\<close> or a message) in
  state \<open>st\<close>. For a loop, \<open>Some (Some m, st)\<close> means that its
  \<^verbatim>\<open>return new_response\<close> was reached with \<open>m\<close>, and \<open>Some (None, st)\<close> that it
  ran to its end.
\<close>

type_synonym outcome = "(message option \<times> state) option"

text \<open>The test \<^verbatim>\<open>new_response and new_response.answer\<close>.\<close>

definition has_answer :: "message option \<Rightarrow> bool" where
  "has_answer r = (case r of None \<Rightarrow> False | Some m \<Rightarrow> answer m \<noteq> [])"

text \<open>\<^verbatim>\<open>for add in additional: ...\<close>, with \<open>chase\<close> the call of \<^verbatim>\<open>find_recursive\<close>.\<close>

fun chase_items :: "(string \<Rightarrow> state \<Rightarrow> outcome) \<Rightarrow> rdata list \<Rightarrow> state \<Rightarrow> outcome" where
  "chase_items chase [] st = Some (None, st)"
| "chase_items chase (add # adds) st =
     Option.bind (chase (rdata_str add) st) (\<lambda>(new_response, st1).
       if has_answer new_response then Some (new_response, st1)
       else chase_items chase adds st1)"

text \<open>\<^verbatim>\<open>for additional in response.additional: ...\<close>, skipping what is not of type A.\<close>

fun chase_additional :: "(string \<Rightarrow> state \<Rightarrow> outcome) \<Rightarrow> rrset list \<Rightarrow> state \<Rightarrow> outcome" where
  "chase_additional chase [] st = Some (None, st)"
| "chase_additional chase (rs # rest) st =
     (if rrset_rdtype rs \<noteq> A then chase_additional chase rest st
      else Option.bind (chase_items chase (rrset_items rs) st) (\<lambda>(found, st1).
             case found of
               Some m \<Rightarrow> Some (Some m, st1)
             | None \<Rightarrow> chase_additional chase rest st1))"

subsection \<open>\<^verbatim>\<open>find\<close>\<close>

text \<open>
  \<^verbatim>\<open>domain_cache[domain]\<close>: the inner dict. It is read only after line 50 has
  created it, and no statement of the program removes a key.
\<close>

definition inner_cache :: "state \<Rightarrow> string \<Rightarrow> (string \<rightharpoonup> message option)" where
  "inner_cache st domain = (case domain_cache st domain of Some d \<Rightarrow> d | None \<Rightarrow> Map.empty)"

text \<open>The entry of a (domain, server) pair: absent, or the cached response.\<close>

definition entry :: "state \<Rightarrow> string \<Rightarrow> string \<Rightarrow> message option option" where
  "entry st domain server = inner_cache st domain server"

text \<open>Lines 53 to 57: the cached response, or a query whose outcome is stored.\<close>

definition root_response ::
  "env \<Rightarrow> nat \<Rightarrow> dns_name \<Rightarrow> rdatatype \<Rightarrow> string \<Rightarrow> string \<Rightarrow> state
     \<Rightarrow> message option \<times> state" where
  "root_response e depth target_name qtype domain root_server st =
     (case inner_cache st domain root_server of
        Some response \<Rightarrow> (response, st)
      | None \<Rightarrow>
          (let (response, st1) = make_request e depth target_name qtype root_server st
           in (response,
               st1\<lparr>domain_cache :=
                      (domain_cache st1)(domain \<mapsto> (inner_cache st1 domain)(root_server \<mapsto> response)),
                    root_sent := root_sent st1 @ [(domain, root_server)]\<rparr>)))"

text \<open>\<^verbatim>\<open>for root_server in ROOT_SERVERS: ...\<close> and the final \<^verbatim>\<open>return None\<close>.\<close>

fun root_loop ::
  "env \<Rightarrow> (string \<Rightarrow> state \<Rightarrow> outcome) \<Rightarrow> nat \<Rightarrow> dns_name \<Rightarrow> rdatatype \<Rightarrow> string
     \<Rightarrow> string list \<Rightarrow> state \<Rightarrow> outcome" where
  "root_loop e chase depth target_name qtype domain [] st = Some (None, st)"
| "root_loop e chase depth target_name qtype domain (root_server # rest) st =
     (let (response, st1) = root_response e depth target_name qtype domain root_server st
      in case response of
           None \<Rightarrow> root_loop e chase depth target_name qtype domain rest st1
         | Some r \<Rightarrow>
             if answer r \<noteq> [] then Some (Some r, st1)
             else if additional r \<noteq> [] then
               Option.bind (chase_additional chase (additional r) st1) (\<lambda>(found, st2).
                 case found of
                   Some m \<Rightarrow> Some (Some m, st2)
                 | None \<Rightarrow> root_loop e chase depth target_name qtype domain rest st2)
             else root_loop e chase depth target_name qtype domain rest st1)"

text \<open>Lines 49 and 50: \<^verbatim>\<open>if domain not in domain_cache: domain_cache[domain] = {}\<close>.\<close>

definition ensure_domain :: "string \<Rightarrow> state \<Rightarrow> state" where
  "ensure_domain domain st =
     (if domain_cache st domain = None
      then st\<lparr>domain_cache := (domain_cache st)(domain \<mapsto> Map.empty)\<rparr>
      else st)"

text \<open>The body of \<^verbatim>\<open>find\<close>, open in its call of \<^verbatim>\<open>find_recursive\<close>.\<close>

definition find_body ::
  "env \<Rightarrow> (string \<Rightarrow> state \<Rightarrow> outcome) \<Rightarrow> nat \<Rightarrow> dns_name \<Rightarrow> rdatatype \<Rightarrow> state
     \<Rightarrow> outcome" where
  "find_body e chase depth target_name qtype st =
     (let domain = get_domain_key e target_name;
          st0 = ensure_domain domain st
      in root_loop e chase depth target_name qtype domain ROOT_SERVERS st0)"

subsection \<open>\<^verbatim>\<open>find_recursive\<close>\<close>

text \<open>
  \<^verbatim>\<open>for answer in response.answer: ...\<close> followed by \<^verbatim>\<open>return response\<close>, with
  \<open>locate\<close> the call of \<^verbatim>\<open>find\<close>.
\<close>

fun follow_cname ::
  "env \<Rightarrow> (dns_name \<Rightarrow> state \<Rightarrow> outcome) \<Rightarrow> rdatatype \<Rightarrow> message \<Rightarrow> rrset list \<Rightarrow> state
     \<Rightarrow> outcome" where
  "follow_cname e locate qtype response [] st = Some (Some response, st)"
| "follow_cname e locate qtype response (rs # rest) st =
     (if rrset_rdtype rs = CNAME \<and> qtype \<noteq> CNAME
      then locate (from_text e (rdata_str (rrset_first rs))) st
      else follow_cname e locate qtype response rest st)"

text \<open>The body of \<^verbatim>\<open>find_recursive\<close>, open in its calls of \<^verbatim>\<open>find\<close> and of itself.\<close>

definition find_recursive_body ::
  "env \<Rightarrow> (dns_name \<Rightarrow> state \<Rightarrow> outcome) \<Rightarrow> (string \<Rightarrow> state \<Rightarrow> outcome) \<Rightarrow> nat
     \<Rightarrow> dns_name \<Rightarrow> rdatatype \<Rightarrow> string \<Rightarrow> state \<Rightarrow> outcome" where
  "find_recursive_body e locate chase depth target_name qtype ip_addr st =
     (let (response, st1) = make_request e depth target_name qtype ip_addr st
      in case response of
           None \<Rightarrow> Some (None, st1)
         | Some r \<Rightarrow>
             if answer r \<noteq> [] then follow_cname e locate qtype r (answer r) st1
             else if additional r \<noteq> [] then
               Option.bind (chase_additional chase (additional r) st1) (\<lambda>(found, st2).
                 case found of
                   Some m \<Rightarrow> Some (Some m, st2)
                 | None \<Rightarrow> Some (Some r, st2))
             else Some (Some r, st1))"

subsection \<open>Tying the knot\<close>

text \<open>
  \<^verbatim>\<open>find\<close> and \<^verbatim>\<open>find_recursive\<close> call each other, so they are one function
  over the two kinds of call; each call made from depth \<open>depth\<close> runs at depth
  \<open>depth + 1\<close>. The function is defined as a partial one; that every call returns
  is proved further down.
\<close>

lemma chase_items_mono [partial_function_mono]:
  assumes "\<And>ip s. mono_option (\<lambda>f. C f ip s)"
  shows "mono_option (\<lambda>f. chase_items (C f) xs st)"
proof (induction xs arbitrary: st)
  case Nil
  show ?case by (simp add: partial_function_mono)
next
  case (Cons x xs)
  have step: "mono_option (\<lambda>f. case y of (new_response, st1) \<Rightarrow>
       if has_answer new_response then Some (new_response, st1)
       else chase_items (C f) xs st1)" for y
    by (cases y) (simp add: partial_function_mono Cons.IH)
  show ?case
    unfolding chase_items.simps
    by (intro partial_function_mono assms step)
qed

lemma chase_additional_mono [partial_function_mono]:
  assumes "\<And>ip s. mono_option (\<lambda>f. C f ip s)"
  shows "mono_option (\<lambda>f. chase_additional (C f) xs st)"
proof (induction xs arbitrary: st)
  case Nil
  show ?case by (simp add: partial_function_mono)
next
  case (Cons x xs)
  have step: "mono_option (\<lambda>f. case y of (found, st1) \<Rightarrow>
       (case found of Some m \<Rightarrow> Some (Some m, st1)
        | None \<Rightarrow> chase_additional (C f) xs st1))" for y
    by (cases y; cases "fst y") (simp_all add: partial_function_mono Cons.IH)
  show ?case
    unfolding chase_additional.simps
    by (intro partial_function_mono chase_items_mono assms Cons.IH step)
qed

lemma root_loop_mono [partial_function_mono]:
  assumes "\<And>ip s. mono_option (\<lambda>f. C f ip s)"
  shows "mono_option (\<lambda>f. root_loop e (C f) dp tn q d xs st)"
proof (induction xs arbitrary: st)
  case Nil
  show ?case by (simp add: partial_function_mono)
next
  case (Cons x xs)
  have step: "mono_option (\<lambda>f. case y of (found, st2) \<Rightarrow>
       (case found of Some m \<Rightarrow> Some (Some m, st2)
        | None \<Rightarrow> root_loop e (C f) dp tn q d xs st2))" for y
    by (cases y; cases "fst y") (simp_all add: partial_function_mono Cons.IH)
  obtain response st1 where rr: "root_response e dp tn q d x st = (response, st1)"
    by (cases "root_response e dp tn q d x st")
  show ?case
  proof (cases response)
    case None
    then show ?thesis by (simp add: rr Cons.IH)
  next
    case (Some r)
    then show ?thesis
      unfolding root_loop.simps rr
      by (simp del: chase_additional.simps)
         (intro conjI impI partial_function_mono chase_additional_mono assms Cons.IH step)
  qed
qed

lemma find_body_mono [partial_function_mono]:
  assumes "\<And>ip s. mono_option (\<lambda>f. C f ip s)"
  shows "mono_option (\<lambda>f. find_body e (C f) dp tn q st)"
  unfolding find_body_def Let_def by (intro root_loop_mono assms)

lemma follow_cname_mono [partial_function_mono]:
  assumes "\<And>n s. mono_option (\<lambda>f. L f n s)"
  shows "mono_option (\<lambda>f. follow_cname e (L f) q r xs st)"
  by (induction xs) (auto intro!: partial_function_mono assms)

lemma find_recursive_body_mono [partial_function_mono]:
  assumes "\<And>n s. mono_option (\<lambda>f. L f n s)" and "\<And>ip s. mono_option (\<lambda>f. C f ip s)"
  shows "mono_option (\<lambda>f. find_recursive_body e (L f) (C f) dp tn q ip st)"
proof -
  have step: "mono_option (\<lambda>f. case y of (found, st2) \<Rightarrow>
       (case found of Some m \<Rightarrow> Some (Some m, st2)
        | None \<Rightarrow> Some (Some r, st2)))" for y r
    by (simp add: partial_function_mono)
  show ?thesis
    unfolding find_recursive_body_def
    by (cases "make_request e dp tn q ip st"; cases "fst (make_request e dp tn q ip st)")
       (auto intro!: partial_function_mono chase_additional_mono follow_cname_mono assms step)
qed

text \<open>The two kinds of call.\<close>

datatype call = Find dns_name rdatatype | Find_recursive dns_name rdatatype string

partial_function (option) run :: "env \<Rightarrow> nat \<Rightarrow> call \<Rightarrow> state \<Rightarrow> outcome" where
  "run e depth c st =
     (case c of
        Find target_name qtype \<Rightarrow>
          find_body e (\<lambda>ip_addr. run e (depth + 1) (Find_recursive target_name qtype ip_addr))
            depth target_name qtype st
      | Find_recursive target_name qtype ip_addr \<Rightarrow>
          find_recursive_body e
            (\<lambda>cname_target. run e (depth + 1) (Find cname_target qtype))
            (\<lambda>ip. run e (depth + 1) (Find_recursive target_name qtype ip))
            depth target_name qtype ip_addr st)"

text \<open>
  \<^verbatim>\<open>find\<close> (named \<open>find_msg\<close> here, as \<open>find\<close> is a list function of HOL) and
  \<^verbatim>\<open>find_recursive\<close>, with the equations that are their source text.
\<close>

definition find_msg :: "env \<Rightarrow> nat \<Rightarrow> dns_name \<Rightarrow> rdatatype \<Rightarrow> state \<Rightarrow> outcome" where
  "find_msg e depth target_name qtype st = run e depth (Find target_name qtype) st"

definition find_recursive ::
  "env \<Rightarrow> nat \<Rightarrow> dns_name \<Rightarrow> rdatatype \<Rightarrow> string \<Rightarrow> state \<Rightarrow> outcome" where
  "find_recursive e depth target_name qtype ip_addr st =
     run e depth (Find_recursive target_name qtype ip_addr) st"

lemma find_msg_unfold:
  "find_msg e depth target_name qtype st =
     find_body e (find_recursive e (depth + 1) target_name qtype) depth target_name qtype st"
  unfolding find_msg_def find_recursive_def by (subst run.simps) simp

lemma find_recursive_unfold:
  "find_recursive e depth target_name qtype ip_addr st =
     find_recursive_body e (\<lambda>cname_target. find_msg e (depth + 1) cname_target qtype)
       (find_recursive e (depth + 1) target_name qtype) depth target_name qtype ip_addr st"
  unfolding find_msg_def find_recursive_def by (subst run.simps) simp

subsection \<open>\<^verbatim>\<open>get_results\<close>\<close>

text \<open>\<^verbatim>\<open>full_response[record_type].append(x)\<close> on a dict kept in insertion order.\<close>

fun append_to :: "string \<Rightarrow> host_entry \<Rightarrow> result_set \<Rightarrow> result_set" where
  "append_to record_type x [] = []"
| "append_to record_type x ((k, v) # rest) =
     (if k = record_type then (k, v @ [x]) # rest else (k, v) # append_to record_type x rest)"

text \<open>\<^verbatim>\<open>for answer in answers: ...\<close>, over the rdatas of one RRset.\<close>

fun collect_rdatas ::
  "env \<Rightarrow> string \<Rightarrow> rdatatype \<Rightarrow> rrset \<Rightarrow> rdata list \<Rightarrow> result_set \<Rightarrow> result_set" where
  "collect_rdatas e record_type rdtype answers [] full_response = full_response"
| "collect_rdatas e record_type rdtype answers (rd # rds) full_response =
     collect_rdatas e record_type rdtype answers rds
       (if rdata_rdtype rd = rdtype
        then append_to record_type
               \<lparr>name = to_text e (rrset_name answers), address = rdata_str rd\<rparr> full_response
        else full_response)"

text \<open>\<^verbatim>\<open>for answers in response.answer: ...\<close>\<close>

fun collect_answers ::
  "env \<Rightarrow> string \<Rightarrow> rdatatype \<Rightarrow> rrset list \<Rightarrow> result_set \<Rightarrow> result_set" where
  "collect_answers e record_type rdtype [] full_response = full_response"
| "collect_answers e record_type rdtype (answers # rest) full_response =
     collect_answers e record_type rdtype rest
       (collect_rdatas e record_type rdtype answers (rrset_items answers) full_response)"

text \<open>
  \<^verbatim>\<open>for record_type, rdatatype in [("A", A), ("AAAA", AAAA)]: ...\<close>; the calls of
  \<^verbatim>\<open>find\<close> made here are the ones at depth 0.
\<close>

fun get_results_loop ::
  "env \<Rightarrow> dns_name \<Rightarrow> (string \<times> rdatatype) list \<Rightarrow> result_set \<Rightarrow> state
     \<Rightarrow> (result_set \<times> state) option" where
  "get_results_loop e target_name [] full_response st = Some (full_response, st)"
| "get_results_loop e target_name ((record_type, rdtype) # rest) full_response st =
     Option.bind (find_msg e 0 target_name rdtype st) (\<lambda>(response, st1).
       get_results_loop e target_name rest
         (case response of
            None \<Rightarrow> full_response
          | Some r \<Rightarrow>
              if answer r \<noteq> [] then collect_answers e record_type rdtype (answer r) full_response
              else full_response)
         st1)"

definition get_results :: "env \<Rightarrow> string \<Rightarrow> state \<Rightarrow> (result_set \<times> state) option" where
  "get_results e nm st =
     (let full_response = [(''A'', []), (''AAAA'', [])];
          target_name = from_text e nm
      in get_results_loop e target_name [(''A'', A), (''AAAA'', AAAA)] full_response st)"

text \<open>
  The weight of a call in the measure of the nesting: \<^verbatim>\<open>find\<close> calls
  \<^verbatim>\<open>find_recursive\<close> one level down, and \<^verbatim>\<open>find_recursive\<close> calls both.
\<close>

fun call_weight :: "call \<Rightarrow> nat" where
  "call_weight (Find n t) = 1"
| "call_weight (Find_recursive n t ip) = 0"

section \<open>Sample collaborators\<close>

text \<open>A small codec for concrete runs: labels joined and split at dots.\<close>

fun join_labels :: "dns_name \<Rightarrow> string" where
  "join_labels [] = ''@''"
| "join_labels [l] = (if l = [] then ''.'' else l)"
| "join_labels (l # l' # ls) =
     l @ ''.'' @ (if l' = [] \<and> ls = [] then [] else join_labels (l' # ls))"

fun split_labels :: "string \<Rightarrow> label \<Rightarrow> dns_name" where
  "split_labels [] acc = (if acc = [] then [[]] else [acc, []])"
| "split_labels (c # cs) acc =
     (if c = CHR ''.'' then (if acc = [] then split_labels cs [] else acc # split_labels cs [])
      else split_labels cs (acc @ [c]))"

definition sample_env :: "(query \<Rightarrow> transport_error + message) \<Rightarrow> env" where
  "sample_env net =
     \<lparr>udp = (\<lambda>history. net), from_text = (\<lambda>s. split_labels s []), to_text = join_labels,
      decode = (\<lambda>l. l), depth_limit = 1000\<rparr>"

text \<open>
  A small network: the first root server refers to a TLD server, which refers to
  an authoritative server; every other address times out.
\<close>

definition a_rrset :: "dns_name \<Rightarrow> string \<Rightarrow> rrset" where
  "a_rrset owner addr =
     \<lparr>rrset_name = owner, rrset_rdtype = A,
      rrset_first = \<lparr>rdata_rdtype = A, rdata_str = addr\<rparr>, rrset_rest = []\<rparr>"

definition referral :: "rrset list \<Rightarrow> message" where
  "referral glue = \<lparr>answer = [], additional = glue\<rparr>"

definition www :: dns_name where "www = [''www'', ''example'', ''com'', []]"

definition alias_nm :: dns_name where "alias_nm = [''alias'', ''example'', ''com'', []]"

definition example_net :: "query \<Rightarrow> transport_error + message" where
  "example_net = (\<lambda>(target_name, qtype, ip_addr).
     if ip_addr = ''198.41.0.4'' then
       Inr (referral
         [\<lparr>rrset_name = [''a'', ''gtld'', []], rrset_rdtype = AAAA,
           rrset_first = \<lparr>rdata_rdtype = AAAA, rdata_str = ''2001:db8::1''\<rparr>, rrset_rest = []\<rparr>,
          a_rrset [''a'', ''gtld'', []] ''192.0.2.1''])
     else if ip_addr = ''192.0.2.1'' then
       Inr (referral [a_rrset [''ns'', ''example'', ''com'', []] ''192.0.2.2''])
     else if ip_addr = ''192.0.2.2'' then
       (if target_name = www \<and> qtype = A then
          Inr \<lparr>answer = [a_rrset www ''93.184.216.34''], additional = []\<rparr>
        else if target_name = alias_nm then
          Inr \<lparr>answer =
                 [\<lparr>rrset_name = alias_nm, rrset_rdtype = CNAME,
                   rrset_first = \<lparr>rdata_rdtype = CNAME, rdata_str = ''www.example.com.''\<rparr>,
                   rrset_rest = []\<rparr>],
               additional = []\<rparr>
        else Inr \<lparr>answer = [], additional = []\<rparr>)
     else Inl Timeout)"

definition example_env :: env where
  "example_env = sample_env example_net"

section \<open>Notions of the specification\<close>

text \<open>
  The records that the specification asks for: every answer record of the
  message whose type is the requested one, as a pair of owner name and value.
\<close>

definition matching_records :: "env \<Rightarrow> rdatatype \<Rightarrow> rrset list \<Rightarrow> host_entry list" where
  "matching_records e rdtype answer_section =
     concat (map (\<lambda>answers.
         map (\<lambda>rd. \<lparr>name = to_text e (rrset_name answers), address = rdata_str rd\<rparr>)
           (filter (\<lambda>rd. rdata_rdtype rd = rdtype) (rrset_items answers)))
       answer_section)"

definition records_of :: "env \<Rightarrow> rdatatype \<Rightarrow> message option \<Rightarrow> host_entry list" where
  "records_of e rdtype response =
     (case response of None \<Rightarrow> [] | Some m \<Rightarrow> matching_records e rdtype (answer m))"

text \<open>
  What a loop does on a list in two parts: nothing is read of the second part
  unless the first part ran to its end without a message.
\<close>

definition and_then :: "outcome \<Rightarrow> (state \<Rightarrow> outcome) \<Rightarrow> outcome" where
  "and_then first rest =
     (case first of
        None \<Rightarrow> None
      | Some (Some m, st1) \<Rightarrow> Some (Some m, st1)
      | Some (None, st1) \<Rightarrow> rest st1)"

text \<open>
  The root loop has sent exactly one query for each entry of the cache, and
  none for a pair without entry.
\<close>

definition cache_filled_once :: "state \<Rightarrow> bool" where
  "cache_filled_once st \<longleftrightarrow>
     distinct (root_sent st) \<and>
     (\<forall>k srv. (k, srv) \<in> set (root_sent st) \<longleftrightarrow> entry st k srv \<noteq> None)"

text \<open>
  The addresses that a referral offers: those of the additional RRsets of type
  A, in their listed order.
\<close>

definition glue_addresses :: "message \<Rightarrow> rdata list" where
  "glue_addresses m =
     concat (map rrset_items (filter (\<lambda>rs. rrset_rdtype rs = A) (additional m)))"

text \<open>The entry of a pair after a run, and a second call of \<^verbatim>\<open>find\<close> after a first.\<close>

definition entry_after :: "outcome \<Rightarrow> string \<Rightarrow> string \<Rightarrow> message option option option" where
  "entry_after out domain server = map_option (\<lambda>(r, s). entry s domain server) out"

definition later_find :: "env \<Rightarrow> dns_name \<Rightarrow> rdatatype \<Rightarrow> outcome \<Rightarrow> outcome" where
  "later_find e target_name qtype out =
     Option.bind out (\<lambda>(r, s). find_msg e 0 target_name qtype s)"

text \<open>The requests of a run that went to one address, in the order made.\<close>

definition queries_to :: "string \<Rightarrow> outcome \<Rightarrow> query list option" where
  "queries_to ip out =
     map_option (\<lambda>(r, s). filter (\<lambda>(target_name, qtype, ip_addr). ip_addr = ip) (sent s)) out"

text \<open>
  A network in which the first root server refers to the address of the second,
  which has nothing to say.
\<close>

definition glue_net :: "query \<Rightarrow> transport_error + message" where
  "glue_net = (\<lambda>(target_name, qtype, ip_addr).
     if ip_addr = ''198.41.0.4'' then
       Inr (referral [a_rrset [''b'', ''root-servers'', ''net'', []] ''199.9.14.201''])
     else if ip_addr = ''199.9.14.201'' then Inr \<lparr>answer = [], additional = []\<rparr>
     else Inl Timeout)"

definition glue_env :: env where
  "glue_env = sample_env glue_net"

text \<open>
  A referral cycle: the first root server refers to one of two servers, each of
  which refers to the other. The nesting limit is set low.
\<close>

definition cycle_net :: "query \<Rightarrow> transport_error + message" where
  "cycle_net = (\<lambda>(target_name, qtype, ip_addr).
     if ip_addr = ''198.41.0.4'' then
       Inr (referral [a_rrset [''ns1'', ''example'', ''com'', []] ''192.0.2.10''])
     else if ip_addr = ''192.0.2.10'' then
       Inr (referral [a_rrset [''ns1'', ''example'', ''com'', []] ''192.0.2.11''])
     else if ip_addr = ''192.0.2.11'' then
       Inr (referral [a_rrset [''ns2'', ''example'', ''com'', []] ''192.0.2.10''])
     else Inl Timeout)"

definition cycle_env :: env where
  "cycle_env = (sample_env cycle_net)\<lparr>depth_limit := 3\<rparr>"

text \<open>
  A state in which the failure of the first root server is cached for \<open>com\<close>.
\<close>

definition failed_root_state :: state where
  "failed_root_state =
     \<lparr>domain_cache = [''com'' \<mapsto> [''198.41.0.4'' \<mapsto> None]], sent = [],
      root_sent = [(''com'', ''198.41.0.4'')]\<rparr>"

text \<open>
  A state in which the failure of every root server is cached for \<open>com\<close>.
\<close>

definition all_failed_state :: state where
  "all_failed_state =
     \<lparr>domain_cache =
        [''com'' \<mapsto> (\<lambda>srv. if srv \<in> set ROOT_SERVERS then Some None else None)],
      sent = [],
      root_sent = map (Pair ''com'') ROOT_SERVERS\<rparr>"

text \<open>
  A network in which only the second root server answers.
\<close>

definition fallback_net :: "query \<Rightarrow> transport_error + message" where
  "fallback_net = (\<lambda>(target_name, qtype, ip_addr).
     if ip_addr = ''199.9.14.201'' then
       Inr \<lparr>answer = [a_rrset target_name ''192.0.2.80''], additional = []\<rparr>
     else Inl Timeout)"

definition fallback_env :: env where
  "fallback_env = sample_env fallback_net"

text \<open>
  A network in which the first root server times out and the second refers to
  its address.
\<close>

definition back_net :: "query \<Rightarrow> transport_error + message" where
  "back_net = (\<lambda>(target_name, qtype, ip_addr).
     if ip_addr = ''199.9.14.201'' then
       Inr (referral [a_rrset [''a'', ''root-servers'', ''net'', []] ''198.41.0.4''])
     else Inl Timeout)"

definition back_env :: env where
  "back_env = sample_env back_net"

text \<open>
  A network in which the first root server times out and the second refers to
  two addresses, of which the first is dead and the second answers.
\<close>

definition v6_glue :: rrset where
  "v6_glue =
     \<lparr>rrset_name = [''a'', ''gtld'', []], rrset_rdtype = AAAA,
      rrset_first = \<lparr>rdata_rdtype = AAAA, rdata_str = ''2001:db8::1''\<rparr>, rrset_rest = []\<rparr>"

definition referring_net :: "query \<Rightarrow> transport_error + message" where
  "referring_net = (\<lambda>(target_name, qtype, ip_addr).
     if ip_addr = ''199.9.14.201'' then
       Inr (referral
         [v6_glue, a_rrset [''a'', ''gtld'', []] ''203.0.113.9'',
          a_rrset [''b'', ''gtld'', []] ''192.0.2.1''])
     else if ip_addr = ''192.0.2.1'' then
       Inr \<lparr>answer = [a_rrset target_name ''192.0.2.80''], additional = []\<rparr>
     else Inl Timeout)"

definition referring_env :: env where
  "referring_env = sample_env referring_net"

section \<open>Running the program on the samples\<close>

lemmas sample_defs = example_env_def sample_env_def example_net_def a_rrset_def referral_def
  www_def alias_nm_def ROOT_SERVERS_def initial_state_def

lemmas more_defs = glue_net_def glue_env_def cycle_net_def cycle_env_def failed_root_state_def
  back_net_def back_env_def fallback_net_def fallback_env_def referring_net_def
  referring_env_def v6_glue_def

lemmas run_defs = get_results_def find_msg_unfold find_recursive_unfold find_body_def
  find_recursive_body_def get_domain_key_def ensure_domain_def root_response_def make_request_def
  call_udp_def inner_cache_def entry_def has_answer_def rrset_items_def Let_def

section \<open>The name key extractor\<close>

lemma two_last: "2 \<le> length xs \<Longrightarrow> \<exists>pre x y. xs = pre @ [x, y]"
proof (induction xs rule: rev_induct)
  case Nil then show ?case by simp
next
  case (snoc y ys)
  then have "ys \<noteq> []" by auto
  then obtain pre x where "ys = pre @ [x]" by (metis append_butlast_last_id)
  then show ?case by auto
qed

text \<open>
  Claim C8. The cache key of a name with fewer than two labels is the textual
  form of the whole name; for any longer name it is the label that stands
  immediately before the last (root) label, that is the top-level-domain label.
\<close>

theorem get_domain_key_tld:
  "(length target_name < 2 \<longrightarrow> get_domain_key e target_name = to_text e target_name) \<and>
   (2 \<le> length target_name \<longrightarrow>
      (\<exists>pre tld root_label. target_name = pre @ [tld, root_label] \<and>
         get_domain_key e target_name = decode e tld)) \<and>
   get_domain_key e (pre @ [tld, root_label]) = decode e tld"
proof (intro conjI impI)
  assume "length target_name < 2"
  then show "get_domain_key e target_name = to_text e target_name"
    by (simp add: get_domain_key_def)
next
  show *: "get_domain_key e (pre @ [tld, root_label]) = decode e tld" for pre tld root_label
    by (simp add: get_domain_key_def nth_append)
  assume "2 \<le> length target_name"
  then obtain pre x y where "target_name = pre @ [x, y]" using two_last by blast
  then show "\<exists>pre tld root_label. target_name = pre @ [tld, root_label] \<and>
         get_domain_key e target_name = decode e tld"
    using * by blast
qed

theorem get_domain_key_tld_witness:
  "get_domain_key example_env [[]] = ''.'' \<and>
   get_domain_key example_env [''www'', ''example'', ''com'', []] = ''com''"
  using get_domain_key_tld [of "[[]]" example_env "[]" "[]" "[]"]
        get_domain_key_tld [of "[''www'', ''example'', ''com'', []]" example_env "[''www'', ''example'']" "''com''" "[]"]
  by (simp add: sample_env_def example_env_def)

section \<open>What the loops return\<close>

lemma call_udp_within: "depth \<le> depth_limit e \<Longrightarrow> call_udp e depth history query = udp e history query"
  by (simp add: call_udp_def)

lemma call_udp_beyond: "depth_limit e < depth \<Longrightarrow> call_udp e depth history query = Inl RecursionError"
  by (simp add: call_udp_def)

lemma make_request_eq:
  "make_request e depth target_name qtype ip_addr st =
     ((case call_udp e depth (sent st) (target_name, qtype, ip_addr) of
         Inr r \<Rightarrow> Some r | Inl err \<Rightarrow> None),
      st\<lparr>sent := sent st @ [(target_name, qtype, ip_addr)]\<rparr>)"
  by (simp add: make_request_def Let_def)

lemma chase_items_answer:
  "chase_items chase xs st = Some (Some m, st') \<Longrightarrow> answer m \<noteq> []"
  by (induction xs arbitrary: st)
     (auto simp: has_answer_def split: Option.bind_splits if_splits option.splits)

lemma chase_additional_answer:
  "chase_additional chase xs st = Some (Some m, st') \<Longrightarrow> answer m \<noteq> []"
  by (induction xs arbitrary: st)
     (auto dest!: chase_items_answer split: Option.bind_splits if_splits option.splits)

lemma root_loop_answer:
  "root_loop e chase dp tn q d xs st = Some (Some m, st') \<Longrightarrow> answer m \<noteq> []"
  by (induction xs arbitrary: st)
     (auto dest!: chase_additional_answer split: Option.bind_splits if_splits option.splits prod.splits)

text \<open>
  Claim C9. Whenever \<^verbatim>\<open>find\<close> returns a message rather than \<^verbatim>\<open>None\<close>, the
  message has a non-empty answer section: a message without answers, which
  \<^verbatim>\<open>find_recursive\<close> may return, never leaves \<^verbatim>\<open>find\<close>.
\<close>

theorem find_msg_message_has_answer:
  "find_msg e depth target_name qtype st = Some (Some m, st') \<Longrightarrow> answer m \<noteq> []"
  unfolding find_msg_unfold find_body_def Let_def by (rule root_loop_answer)

theorem find_msg_message_has_answer_witness:
  "map_option fst (find_msg example_env 0 www A initial_state) =
     Some (Some \<lparr>answer = [a_rrset www ''93.184.216.34''], additional = []\<rparr>) \<and>
   answer \<lparr>answer = [a_rrset www ''93.184.216.34''], additional = []\<rparr> \<noteq> []"
proof -
  let ?m = "\<lparr>answer = [a_rrset www ''93.184.216.34''], additional = []\<rparr>"
  have "map_option fst (find_msg example_env 0 www A initial_state) = Some (Some ?m)"
    by (simp add: run_defs sample_defs)
  moreover from this obtain st' where "find_msg example_env 0 www A initial_state = Some (Some ?m, st')"
    by (cases "find_msg example_env 0 www A initial_state") auto
  from find_msg_message_has_answer [OF this] have "answer ?m \<noteq> []" .
  ultimately show ?thesis by simp
qed

text \<open>
  Claim C6. Whatever exception the call of the transport raises, a timeout, any
  network error, or the \<^verbatim>\<open>RecursionError\<close> of a call nested too deep,
  \<^verbatim>\<open>make_request\<close> returns the one value \<^verbatim>\<open>None\<close>, the same for every kind of
  failure, and that is all the chaser sees; a delivered message is returned as
  it is.
\<close>

theorem make_request_absent_on_failure:
  "(call_udp e depth (sent st) (target_name, qtype, ip_addr) = Inl err \<longrightarrow>
      make_request e depth target_name qtype ip_addr st =
        (None, st\<lparr>sent := sent st @ [(target_name, qtype, ip_addr)]\<rparr>) \<and>
      find_recursive e depth target_name qtype ip_addr st =
        Some (None, st\<lparr>sent := sent st @ [(target_name, qtype, ip_addr)]\<rparr>)) \<and>
   (call_udp e depth (sent st) (target_name, qtype, ip_addr) = Inr r \<longrightarrow>
      fst (make_request e depth target_name qtype ip_addr st) = Some r) \<and>
   (depth \<le> depth_limit e \<longrightarrow>
      call_udp e depth (sent st) (target_name, qtype, ip_addr) =
        udp e (sent st) (target_name, qtype, ip_addr)) \<and>
   (depth_limit e < depth \<longrightarrow>
      call_udp e depth (sent st) (target_name, qtype, ip_addr) = Inl RecursionError)"
  by (simp add: find_recursive_unfold find_recursive_body_def make_request_eq call_udp_def)

theorem make_request_absent_on_failure_witness:
  "udp example_env (sent initial_state) (www, A, ''203.0.113.9'') = Inl Timeout \<and>
   make_request example_env 0 www A ''203.0.113.9'' initial_state =
     (None, initial_state\<lparr>sent := [(www, A, ''203.0.113.9'')]\<rparr>) \<and>
   find_recursive example_env 0 www A ''203.0.113.9'' initial_state =
     Some (None, initial_state\<lparr>sent := [(www, A, ''203.0.113.9'')]\<rparr>) \<and>
   udp example_env (sent initial_state) (www, A, ''192.0.2.1'') =
     Inr (referral [a_rrset [''ns'', ''example'', ''com'', []] ''192.0.2.2'']) \<and>
   fst (make_request example_env 0 www A ''192.0.2.1'' initial_state) =
     Some (referral [a_rrset [''ns'', ''example'', ''com'', []] ''192.0.2.2'']) \<and>
   call_udp cycle_env 4 (sent initial_state) (www, A, ''192.0.2.10'') = Inl RecursionError \<and>
   make_request cycle_env 4 www A ''192.0.2.10'' initial_state =
     (None, initial_state\<lparr>sent := [(www, A, ''192.0.2.10'')]\<rparr>)"
  using make_request_absent_on_failure
          [of example_env 0 initial_state www A "''203.0.113.9''" Timeout]
        make_request_absent_on_failure
          [of example_env 0 initial_state www A "''192.0.2.1''" _
              "referral [a_rrset [''ns'', ''example'', ''com'', []] ''192.0.2.2'']"]
        make_request_absent_on_failure
          [of cycle_env 4 initial_state www A "''192.0.2.10''" RecursionError]
  by (simp add: example_env_def sample_env_def example_net_def initial_state_def www_def
      alias_nm_def cycle_env_def call_udp_def)

text \<open>
  Claim C7. A response with an empty answer section and an empty additional
  section is returned by \<^verbatim>\<open>find_recursive\<close> unchanged, as a present message; on a
  failure of the transport it returns \<^verbatim>\<open>None\<close> instead, so the two can be told
  apart.
\<close>

theorem find_recursive_empty_response:
  "(call_udp e depth (sent st) (target_name, qtype, ip_addr) = Inr r \<and> answer r = [] \<and>
    additional r = [] \<longrightarrow>
      find_recursive e depth target_name qtype ip_addr st =
        Some (Some r, st\<lparr>sent := sent st @ [(target_name, qtype, ip_addr)]\<rparr>)) \<and>
   (call_udp e depth (sent st) (target_name, qtype, ip_addr) = Inl err \<longrightarrow>
      find_recursive e depth target_name qtype ip_addr st =
        Some (None, st\<lparr>sent := sent st @ [(target_name, qtype, ip_addr)]\<rparr>))"
  by (simp add: find_recursive_unfold find_recursive_body_def make_request_eq)

theorem find_recursive_empty_response_witness:
  "call_udp example_env 0 (sent initial_state) (www, AAAA, ''192.0.2.2'') =
     Inr \<lparr>answer = [], additional = []\<rparr> \<and>
   find_recursive example_env 0 www AAAA ''192.0.2.2'' initial_state =
     Some (Some \<lparr>answer = [], additional = []\<rparr>,
           initial_state\<lparr>sent := [(www, AAAA, ''192.0.2.2'')]\<rparr>) \<and>
   call_udp example_env 0 (sent initial_state) (www, AAAA, ''203.0.113.9'') = Inl Timeout \<and>
   find_recursive example_env 0 www AAAA ''203.0.113.9'' initial_state =
     Some (None, initial_state\<lparr>sent := [(www, AAAA, ''203.0.113.9'')]\<rparr>)"
  using find_recursive_empty_response
          [of example_env 0 initial_state www AAAA "''192.0.2.2''" "\<lparr>answer = [], additional = []\<rparr>"]
        find_recursive_empty_response
          [of example_env 0 initial_state www AAAA "''203.0.113.9''" _ Timeout]
  by (simp add: example_env_def sample_env_def example_net_def initial_state_def www_def
      alias_nm_def call_udp_def)

lemma follow_cname_first:
  "\<forall>x\<in>set pre. rrset_rdtype x \<noteq> CNAME \<Longrightarrow> rrset_rdtype rs = CNAME \<Longrightarrow> qtype \<noteq> CNAME \<Longrightarrow>
   follow_cname e locate qtype r (pre @ rs # post) st =
     locate (from_text e (rdata_str (rrset_first rs))) st"
  by (induction pre) auto

text \<open>
  Claim C4. When the response has answers, the first RRset of type CNAME among
  them names the alias target, and the queried type is not CNAME, then
  \<^verbatim>\<open>find_recursive\<close> returns exactly what \<^verbatim>\<open>find\<close>, called from it, returns for
  the target and the same type, started from the root servers in the state
  after the query.
\<close>

theorem find_recursive_cname_restarts:
  assumes "call_udp e depth (sent st) (target_name, qtype, ip_addr) = Inr r"
    and "answer r = pre @ rs # post"
    and "\<forall>x\<in>set pre. rrset_rdtype x \<noteq> CNAME"
    and "rrset_rdtype rs = CNAME"
    and "qtype \<noteq> CNAME"
  shows "find_recursive e depth target_name qtype ip_addr st =
           find_msg e (depth + 1) (from_text e (rdata_str (rrset_first rs))) qtype
             (st\<lparr>sent := sent st @ [(target_name, qtype, ip_addr)]\<rparr>)"
  using assms
  by (simp add: find_recursive_unfold [of e depth target_name] find_recursive_body_def
      make_request_eq follow_cname_first)

theorem find_recursive_cname_restarts_witness:
  "find_recursive example_env 0 alias_nm A ''192.0.2.2'' initial_state =
     find_msg example_env 1 www A (initial_state\<lparr>sent := [(alias_nm, A, ''192.0.2.2'')]\<rparr>) \<and>
   map_option fst (find_recursive example_env 0 alias_nm A ''192.0.2.2'' initial_state) =
     Some (Some \<lparr>answer = [a_rrset www ''93.184.216.34''], additional = []\<rparr>)"
proof -
  let ?rs = "\<lparr>rrset_name = alias_nm, rrset_rdtype = CNAME,
               rrset_first = \<lparr>rdata_rdtype = CNAME, rdata_str = ''www.example.com.''\<rparr>,
               rrset_rest = []\<rparr>"
  have "find_recursive example_env 0 alias_nm A ''192.0.2.2'' initial_state =
          find_msg example_env (0 + 1) (from_text example_env (rdata_str (rrset_first ?rs))) A
            (initial_state\<lparr>sent := sent initial_state @ [(alias_nm, A, ''192.0.2.2'')]\<rparr>)"
    by (rule find_recursive_cname_restarts [where pre = "[]" and post = "[]" and
          r = "\<lparr>answer = [?rs], additional = []\<rparr>"])
       (simp_all add: example_env_def sample_env_def example_net_def initial_state_def
          www_def alias_nm_def call_udp_def)
  moreover have "from_text example_env ''www.example.com.'' = www"
    by (simp add: example_env_def sample_env_def www_def)
  moreover have "map_option fst (find_msg example_env 1 www A
        (initial_state\<lparr>sent := [(alias_nm, A, ''192.0.2.2'')]\<rparr>)) =
     Some (Some \<lparr>answer = [a_rrset www ''93.184.216.34''], additional = []\<rparr>)"
    by (simp add: run_defs sample_defs)
  ultimately show ?thesis by (simp add: initial_state_def)
qed

section \<open>How a call changes the state\<close>

text \<open>
  A relation between the state before and after that holds across every
  statement that writes (\<^verbatim>\<open>make_request\<close>, lines 49 to 50, lines 53 to 57), and
  that is reflexive and transitive, holds across every call that returns.
\<close>

lemma chase_items_rel:
  assumes refl: "\<And>s. Q s s" and trans: "\<And>a b c. Q a b \<Longrightarrow> Q b c \<Longrightarrow> Q a c"
    and chase: "\<And>ip s r s'. chase ip s = Some (r, s') \<Longrightarrow> Q s s'"
  shows "chase_items chase xs st = Some (r, st') \<Longrightarrow> Q st st'"
proof (induction xs arbitrary: st)
  case Nil
  then show ?case by (simp add: refl)
next
  case (Cons x xs)
  from Cons.prems obtain nr s1 where c: "chase (rdata_str x) st = Some (nr, s1)"
    and rest: "(if has_answer nr then Some (nr, s1) else chase_items chase xs s1) = Some (r, st')"
    by (auto split: Option.bind_splits)
  have "Q st s1" using c by (rule chase)
  moreover have "Q s1 st'"
    using rest Cons.IH [of s1] by (auto simp: refl split: if_splits)
  ultimately show ?case by (rule trans)
qed

lemma chase_additional_rel:
  assumes refl: "\<And>s. Q s s" and trans: "\<And>a b c. Q a b \<Longrightarrow> Q b c \<Longrightarrow> Q a c"
    and chase: "\<And>ip s r s'. chase ip s = Some (r, s') \<Longrightarrow> Q s s'"
  shows "chase_additional chase xs st = Some (r, st') \<Longrightarrow> Q st st'"
proof (induction xs arbitrary: st)
  case Nil
  then show ?case by (simp add: refl)
next
  case (Cons x xs)
  show ?case
  proof (cases "rrset_rdtype x \<noteq> A")
    case True
    then show ?thesis using Cons by simp
  next
    case False
    with Cons.prems obtain found s1 where
      c: "chase_items chase (rrset_items x) st = Some (found, s1)"
      and rest: "(case found of Some m \<Rightarrow> Some (Some m, s1)
                  | None \<Rightarrow> chase_additional chase xs s1) = Some (r, st')"
      by (auto split: Option.bind_splits)
    have "Q st s1" by (rule chase_items_rel [where Q = Q and chase = chase, OF refl trans chase c])
    moreover have "Q s1 st'"
      using rest Cons.IH [of s1] by (auto simp: refl split: option.splits)
    ultimately show ?thesis by (rule trans)
  qed
qed

lemma root_loop_rel:
  assumes refl: "\<And>s. Q s s" and trans: "\<And>a b c. Q a b \<Longrightarrow> Q b c \<Longrightarrow> Q a c"
    and chase: "\<And>ip s r s'. chase ip s = Some (r, s') \<Longrightarrow> Q s s'"
    and rr: "\<And>srv s. Q s (snd (root_response e dp tn q d srv s))"
  shows "root_loop e chase dp tn q d xs st = Some (r, st') \<Longrightarrow> Q st st'"
proof (induction xs arbitrary: st)
  case Nil
  then show ?case by (simp add: refl)
next
  case (Cons x xs)
  obtain response s1 where r1: "root_response e dp tn q d x st = (response, s1)"
    by (cases "root_response e dp tn q d x st")
  have q1: "Q st s1" using rr [of st x] by (simp add: r1)
  have "Q s1 st'"
  proof (cases response)
    case None
    then show ?thesis using Cons.prems Cons.IH [of s1] by (simp add: r1)
  next
    case (Some m)
    show ?thesis
    proof (cases "answer m \<noteq> []")
      case True
      then show ?thesis using Cons.prems Some by (simp add: r1 refl)
    next
      case noans: False
      show ?thesis
      proof (cases "additional m \<noteq> []")
        case False
        then show ?thesis using Cons.prems Cons.IH [of s1] Some noans by (simp add: r1)
      next
        case True
        with Cons.prems Some noans obtain found s2 where
          c: "chase_additional chase (additional m) s1 = Some (found, s2)"
          and rest: "(case found of Some m' \<Rightarrow> Some (Some m', s2)
                      | None \<Rightarrow> root_loop e chase dp tn q d xs s2) = Some (r, st')"
          by (auto simp: r1 split: Option.bind_splits)
        have "Q s1 s2" by (rule chase_additional_rel [where Q = Q and chase = chase, OF refl trans chase c])
        moreover have "Q s2 st'"
          using rest Cons.IH [of s2] by (auto simp: refl split: option.splits)
        ultimately show ?thesis by (rule trans)
      qed
    qed
  qed
  with q1 show ?case by (rule trans)
qed

lemma follow_cname_rel:
  assumes refl: "\<And>s. Q s s"
    and locate: "\<And>n s r s'. locate n s = Some (r, s') \<Longrightarrow> Q s s'"
  shows "follow_cname e locate q m xs st = Some (r, st') \<Longrightarrow> Q st st'"
  by (induction xs) (auto simp: refl dest: locate split: if_splits)

lemma find_body_rel:
  assumes refl: "\<And>s. Q s s" and trans: "\<And>a b c. Q a b \<Longrightarrow> Q b c \<Longrightarrow> Q a c"
    and chase: "\<And>ip s r s'. chase ip s = Some (r, s') \<Longrightarrow> Q s s'"
    and rr: "\<And>dp n t d srv s. Q s (snd (root_response e dp n t d srv s))"
    and ens: "\<And>d s. Q s (ensure_domain d s)"
    and body: "find_body e chase dp tn q st = Some (r, st')"
  shows "Q st st'"
proof -
  have "Q (ensure_domain (get_domain_key e tn) st) st'"
    by (rule root_loop_rel [where Q = Q and chase = chase, OF refl trans chase rr
          body [unfolded find_body_def Let_def]])
  with ens show ?thesis by (rule trans)
qed

lemma find_recursive_body_rel:
  assumes refl: "\<And>s. Q s s" and trans: "\<And>a b c. Q a b \<Longrightarrow> Q b c \<Longrightarrow> Q a c"
    and locate: "\<And>n s r s'. locate n s = Some (r, s') \<Longrightarrow> Q s s'"
    and chase: "\<And>ip s r s'. chase ip s = Some (r, s') \<Longrightarrow> Q s s'"
    and mk: "\<And>dp n t ip s. Q s (snd (make_request e dp n t ip s))"
    and body: "find_recursive_body e locate chase dp tn q ip st = Some (r, st')"
  shows "Q st st'"
proof -
  obtain response s1 where r1: "make_request e dp tn q ip st = (response, s1)"
    by (cases "make_request e dp tn q ip st")
  have q1: "Q st s1" using mk [of st dp tn q ip] by (simp add: r1)
  have "Q s1 st'"
  proof (cases response)
    case None
    then show ?thesis using body by (simp add: find_recursive_body_def r1 refl)
  next
    case (Some m)
    show ?thesis
    proof (cases "answer m \<noteq> []")
      case True
      then have fc: "follow_cname e locate q m (answer m) s1 = Some (r, st')"
        using body Some by (simp add: find_recursive_body_def r1)
      show ?thesis by (rule follow_cname_rel [where Q = Q and locate = locate, OF refl locate fc])
    next
      case noans: False
      show ?thesis
      proof (cases "additional m \<noteq> []")
        case False
        then show ?thesis using body Some noans by (simp add: find_recursive_body_def r1 refl)
      next
        case True
        with body Some noans obtain found s2 where
          c: "chase_additional chase (additional m) s1 = Some (found, s2)"
          and rest: "(case found of Some m' \<Rightarrow> Some (Some m', s2)
                      | None \<Rightarrow> Some (Some m, s2)) = Some (r, st')"
          by (auto simp: find_recursive_body_def r1 split: Option.bind_splits)
        have "Q s1 s2" by (rule chase_additional_rel [where Q = Q and chase = chase, OF refl trans chase c])
        moreover have "s2 = st'" using rest by (auto split: option.splits)
        ultimately show ?thesis by simp
      qed
    qed
  qed
  with q1 show ?thesis by (rule trans)
qed

lemma run_rel:
  assumes refl: "\<And>s. Q s s" and trans: "\<And>a b c. Q a b \<Longrightarrow> Q b c \<Longrightarrow> Q a c"
    and mk: "\<And>dp n t ip s. Q s (snd (make_request e dp n t ip s))"
    and rr: "\<And>dp n t d srv s. Q s (snd (root_response e dp n t d srv s))"
    and ens: "\<And>d s. Q s (ensure_domain d s)"
    and run: "run e depth c st = Some (r, st')"
  shows "Q st st'"
proof -
  have "e = e \<longrightarrow> Q st (snd (r, st'))"
  proof (rule run.raw_induct [where P = "\<lambda>e' dp c st y. e' = e \<longrightarrow> Q st (snd y)", OF _ run])
    fix run' :: "env \<Rightarrow> nat \<Rightarrow> call \<Rightarrow> state \<Rightarrow> outcome" and e' dp c st y
    assume IH: "\<And>e'' dp c st y. run' e'' dp c st = Some y \<Longrightarrow> e'' = e \<longrightarrow> Q st (snd y)"
    assume body: "(case c of
        Find target_name qtype \<Rightarrow>
          find_body e' (\<lambda>ip_addr. run' e' (dp + 1) (Find_recursive target_name qtype ip_addr))
            dp target_name qtype st
      | Find_recursive target_name qtype ip_addr \<Rightarrow>
          find_recursive_body e'
            (\<lambda>cname_target. run' e' (dp + 1) (Find cname_target qtype))
            (\<lambda>ip. run' e' (dp + 1) (Find_recursive target_name qtype ip))
            dp target_name qtype ip_addr st) = Some y"
    show "e' = e \<longrightarrow> Q st (snd y)"
    proof
      assume e': "e' = e"
      have sub: "run' e dp' c' s = Some (r', s') \<Longrightarrow> Q s s'" for dp' c' s r' s'
        using IH [of e dp' c' s "(r', s')"] by simp
      show "Q st (snd y)"
      proof (cases c)
        case (Find tn q)
        with body e' have b:
          "find_body e (\<lambda>ip. run' e (dp + 1) (Find_recursive tn q ip)) dp tn q st =
             Some (fst y, snd y)"
          by simp
        show ?thesis
          by (rule find_body_rel [where Q = Q, OF refl trans sub rr ens b])
      next
        case (Find_recursive tn q ip)
        with body e' have b:
          "find_recursive_body e (\<lambda>n. run' e (dp + 1) (Find n q))
             (\<lambda>ip'. run' e (dp + 1) (Find_recursive tn q ip')) dp tn q ip st =
             Some (fst y, snd y)"
          by simp
        show ?thesis
          by (rule find_recursive_body_rel [where Q = Q, OF refl trans sub sub mk b])
      qed
    qed
  qed
  then show ?thesis by simp
qed

lemma find_msg_rel:
  assumes "\<And>s. Q s s" and "\<And>a b c. Q a b \<Longrightarrow> Q b c \<Longrightarrow> Q a c"
    and "\<And>dp n t ip s. Q s (snd (make_request e dp n t ip s))"
    and "\<And>dp n t d srv s. Q s (snd (root_response e dp n t d srv s))"
    and "\<And>d s. Q s (ensure_domain d s)"
    and "find_msg e depth tn q st = Some (r, st')"
  shows "Q st st'"
  by (rule run_rel [where Q = Q, OF assms(1-5) assms(6) [unfolded find_msg_def]])

lemma find_recursive_rel:
  assumes "\<And>s. Q s s" and "\<And>a b c. Q a b \<Longrightarrow> Q b c \<Longrightarrow> Q a c"
    and "\<And>dp n t ip s. Q s (snd (make_request e dp n t ip s))"
    and "\<And>dp n t d srv s. Q s (snd (root_response e dp n t d srv s))"
    and "\<And>d s. Q s (ensure_domain d s)"
    and "find_recursive e depth tn q ip st = Some (r, st')"
  shows "Q st st'"
  by (rule run_rel [where Q = Q, OF assms(1-5) assms(6) [unfolded find_recursive_def]])

section \<open>The domain cache\<close>

lemma entry_make_request:
  "entry (snd (make_request e dp n t ip s)) k srv = entry s k srv"
  by (simp add: make_request_def entry_def inner_cache_def Let_def)

lemma entry_ensure_domain: "entry (ensure_domain d s) k srv = entry s k srv"
  by (simp add: ensure_domain_def entry_def inner_cache_def)

lemma root_response_cached:
  "entry s d srv = Some r \<Longrightarrow> root_response e dp n t d srv s = (r, s)"
  by (simp add: root_response_def entry_def)

lemma entry_root_response:
  "entry (snd (root_response e dp n t d srv' s)) k srv =
     (if entry s d srv' = None \<and> k = d \<and> srv = srv'
      then Some (fst (root_response e dp n t d srv' s)) else entry s k srv)"
  by (cases "inner_cache s d srv'")
     (auto simp: root_response_def entry_def inner_cache_def make_request_def Let_def)

lemma root_sent_make_request: "root_sent (snd (make_request e dp n t ip s)) = root_sent s"
  by (simp add: make_request_def Let_def)

lemma root_sent_ensure_domain: "root_sent (ensure_domain d s) = root_sent s"
  by (simp add: ensure_domain_def)

lemma root_sent_root_response:
  "root_sent (snd (root_response e dp n t d srv s)) =
     (if entry s d srv = None then root_sent s @ [(d, srv)] else root_sent s)"
  by (cases "inner_cache s d srv")
     (auto simp: root_response_def entry_def make_request_def Let_def)

lemma find_msg_entry_kept:
  assumes "find_msg e depth tn q st = Some (res, st')" and "entry st k srv = Some r"
  shows "entry st' k srv = Some r"
proof -
  have "\<forall>k srv r. entry st k srv = Some r \<longrightarrow> entry st' k srv = Some r"
    by (rule find_msg_rel [where Q = "\<lambda>s s'. \<forall>k srv r. entry s k srv = Some r \<longrightarrow> entry s' k srv = Some r",
          OF _ _ _ _ _ assms(1)])
       (auto simp: entry_make_request entry_ensure_domain entry_root_response)
  with assms(2) show ?thesis by blast
qed

lemma find_recursive_entry_kept:
  assumes "find_recursive e depth tn q ip st = Some (res, st')" and "entry st k srv = Some r"
  shows "entry st' k srv = Some r"
proof -
  have "\<forall>k srv r. entry st k srv = Some r \<longrightarrow> entry st' k srv = Some r"
    by (rule find_recursive_rel [where Q = "\<lambda>s s'. \<forall>k srv r. entry s k srv = Some r \<longrightarrow> entry s' k srv = Some r",
          OF _ _ _ _ _ assms(1)])
       (auto simp: entry_make_request entry_ensure_domain entry_root_response)
  with assms(2) show ?thesis by blast
qed

lemma root_loop_skips_failure:
  "entry st k srv = Some None \<Longrightarrow>
   root_loop e chase dp tn q k (srv # rest) st = root_loop e chase dp tn q k rest st"
  by (simp add: root_response_cached)

lemma root_loop_all_failed:
  "\<forall>srv\<in>set xs. entry st k srv = Some None \<Longrightarrow>
   root_loop e chase dp tn q k xs st = Some (None, st)"
  by (induction xs) (simp_all add: root_response_cached)

lemma ensure_domain_present: "entry st k srv = Some r \<Longrightarrow> ensure_domain k st = st"
  by (auto simp: ensure_domain_def entry_def inner_cache_def split: option.splits)

lemma find_msg_all_failed:
  assumes "\<forall>srv\<in>set ROOT_SERVERS. entry st (get_domain_key e tn) srv = Some None"
  shows "find_msg e depth tn q st = Some (None, st)"
proof -
  have "''198.41.0.4'' \<in> set ROOT_SERVERS" by (simp add: ROOT_SERVERS_def)
  with assms have "entry st (get_domain_key e tn) ''198.41.0.4'' = Some None" by blast
  then have "ensure_domain (get_domain_key e tn) st = st" by (rule ensure_domain_present)
  then show ?thesis
    using root_loop_all_failed [OF assms] by (simp add: find_msg_unfold find_body_def Let_def)
qed

section \<open>Every call returns\<close>

lemma follow_cname_returns:
  "\<forall>n s. \<exists>y. locate n s = Some y \<Longrightarrow> \<exists>y. follow_cname e locate q m xs st = Some y"
  by (induction xs) auto

lemma chase_items_returns:
  "\<forall>ip s. \<exists>y. chase ip s = Some y \<Longrightarrow> \<exists>y. chase_items chase xs st = Some y"
proof (induction xs arbitrary: st)
  case Nil
  show ?case by simp
next
  case (Cons x xs)
  from Cons.prems obtain r s1 where c: "chase (rdata_str x) st = Some (r, s1)" by fastforce
  from Cons.IH [OF Cons.prems, of s1] obtain y where "chase_items chase xs s1 = Some y" by auto
  with c show ?case by simp
qed

lemma chase_additional_returns:
  "\<forall>ip s. \<exists>y. chase ip s = Some y \<Longrightarrow> \<exists>y. chase_additional chase xs st = Some y"
proof (induction xs arbitrary: st)
  case Nil
  show ?case by simp
next
  case (Cons x xs)
  from chase_items_returns [OF Cons.prems, of "rrset_items x" st]
  obtain found s1 where c: "chase_items chase (rrset_items x) st = Some (found, s1)" by auto
  from Cons.IH [OF Cons.prems, of s1] obtain y where r1: "chase_additional chase xs s1 = Some y"
    by auto
  from Cons.IH [OF Cons.prems, of st] obtain y' where r2: "chase_additional chase xs st = Some y'"
    by auto
  from c r1 r2 show ?case by (cases found) auto
qed

lemma root_loop_returns:
  "\<forall>ip s. \<exists>y. chase ip s = Some y \<Longrightarrow> \<exists>y. root_loop e chase dp tn q d xs st = Some y"
proof (induction xs arbitrary: st)
  case Nil
  show ?case by simp
next
  case (Cons x xs)
  obtain response s1 where r1: "root_response e dp tn q d x st = (response, s1)"
    by (cases "root_response e dp tn q d x st")
  have rest: "\<exists>y. root_loop e chase dp tn q d xs s = Some y" for s
    by (rule Cons.IH [OF Cons.prems])
  show ?case
  proof (cases response)
    case None
    then show ?thesis using rest [of s1] by (simp add: r1)
  next
    case (Some m)
    from chase_additional_returns [OF Cons.prems, of "additional m" s1]
    obtain found s2 where c: "chase_additional chase (additional m) s1 = Some (found, s2)" by auto
    from rest [of s2] obtain y where "root_loop e chase dp tn q d xs s2 = Some y" by auto
    with c Some rest [of s1] show ?thesis by (cases found) (auto simp: r1)
  qed
qed

lemma find_recursive_body_returns:
  assumes "\<forall>n s. \<exists>y. locate n s = Some y" and "\<forall>ip s. \<exists>y. chase ip s = Some y"
  shows "\<exists>y. find_recursive_body e locate chase dp tn q ip st = Some y"
proof -
  obtain response s1 where r1: "make_request e dp tn q ip st = (response, s1)"
    by (cases "make_request e dp tn q ip st")
  show ?thesis
  proof (cases response)
    case None
    then show ?thesis by (simp add: find_recursive_body_def r1)
  next
    case (Some m)
    from follow_cname_returns [OF assms(1), of e q m "answer m" s1]
    obtain y where f: "follow_cname e locate q m (answer m) s1 = Some y" by auto
    from chase_additional_returns [OF assms(2), of "additional m" s1]
    obtain found s2 where c: "chase_additional chase (additional m) s1 = Some (found, s2)" by auto
    from f c Some show ?thesis by (cases found) (auto simp: find_recursive_body_def r1)
  qed
qed

lemma find_recursive_beyond:
  "depth_limit e < depth \<Longrightarrow>
   find_recursive e depth tn q ip st = Some (None, st\<lparr>sent := sent st @ [(tn, q, ip)]\<rparr>)"
  by (simp add: find_recursive_unfold [of e depth] find_recursive_body_def make_request_eq
      call_udp_beyond)

lemma run_returns: "\<exists>y. run e depth c st = Some y"
proof (induction "2 * (depth_limit e + 1 - depth) + call_weight c"
    arbitrary: depth c st rule: less_induct)
  case less
  show ?case
  proof (cases c)
    case (Find tn q)
    have chase: "\<forall>ip s. \<exists>y. run e (depth + 1) (Find_recursive tn q ip) s = Some y"
      by (intro allI less) (simp add: Find)
    have "\<exists>y. find_body e (\<lambda>ip. run e (depth + 1) (Find_recursive tn q ip)) depth tn q st = Some y"
      unfolding find_body_def Let_def by (rule root_loop_returns [OF chase])
    then show ?thesis by (subst run.simps) (simp add: Find)
  next
    case (Find_recursive tn q ip)
    show ?thesis
    proof (cases "depth_limit e < depth")
      case True
      then show ?thesis
        using find_recursive_beyond [of e depth tn q ip st]
        by (simp add: Find_recursive find_recursive_def)
    next
      case False
      have locate: "\<forall>n s. \<exists>y. run e (depth + 1) (Find n q) s = Some y"
        by (intro allI less) (use False in \<open>simp add: Find_recursive\<close>)
      have chase: "\<forall>ip' s. \<exists>y. run e (depth + 1) (Find_recursive tn q ip') s = Some y"
        by (intro allI less) (use False in \<open>simp add: Find_recursive\<close>)
      have "\<exists>y. find_recursive_body e (\<lambda>n. run e (depth + 1) (Find n q))
          (\<lambda>ip'. run e (depth + 1) (Find_recursive tn q ip')) depth tn q ip st = Some y"
        by (rule find_recursive_body_returns [OF locate chase])
      then show ?thesis by (subst run.simps) (simp add: Find_recursive)
    qed
  qed
qed

lemma find_msg_returns: "\<exists>r st'. find_msg e depth tn q st = Some (r, st')"
  using run_returns [of e depth "Find tn q" st] by (simp add: find_msg_def)

lemma find_recursive_returns: "\<exists>r st'. find_recursive e depth tn q ip st = Some (r, st')"
  using run_returns [of e depth "Find_recursive tn q ip" st] by (simp add: find_recursive_def)

text \<open>
  Claim C3. \<^verbatim>\<open>find_recursive\<close> returns on every network, a referral cycle
  included, for every name, type, address, depth and state. The maximum of the
  depth is the one that the interpreter's recursion limit sets: in a call that
  is nested deeper, the request fails inside \<^verbatim>\<open>make_request\<close>, and the call
  returns \<^verbatim>\<open>None\<close> at line 87 without calling anything further.
\<close>

theorem find_recursive_terminates:
  "(\<exists>r st'. find_recursive e depth target_name qtype ip_addr st = Some (r, st')) \<and>
   (depth_limit e < depth \<longrightarrow>
      find_recursive e depth target_name qtype ip_addr st =
        Some (None, st\<lparr>sent := sent st @ [(target_name, qtype, ip_addr)]\<rparr>))"
  using find_recursive_returns find_recursive_beyond by blast

theorem find_recursive_terminates_witness:
  "depth_limit cycle_env < 4 \<and>
   find_recursive cycle_env 4 www A ''192.0.2.10'' initial_state =
     Some (None, initial_state\<lparr>sent := [(www, A, ''192.0.2.10'')]\<rparr>) \<and>
   (\<exists>st'. find_recursive cycle_env 0 www A ''192.0.2.10'' initial_state =
      Some (Some (referral [a_rrset [''ns1'', ''example'', ''com'', []] ''192.0.2.11'']), st') \<and>
      sent st' =
        [(www, A, ''192.0.2.10''), (www, A, ''192.0.2.11''), (www, A, ''192.0.2.10''),
         (www, A, ''192.0.2.11''), (www, A, ''192.0.2.10'')])"
proof -
  have l: "depth_limit cycle_env < 4"
    by (simp add: cycle_env_def sample_env_def)
  from find_recursive_terminates [of cycle_env 0 www A "''192.0.2.10''" initial_state]
  obtain r st' where f: "find_recursive cycle_env 0 www A ''192.0.2.10'' initial_state = Some (r, st')"
    by blast
  have "map_option (\<lambda>(r, s). (r, sent s))
      (find_recursive cycle_env 0 www A ''192.0.2.10'' initial_state) =
    Some (Some (referral [a_rrset [''ns1'', ''example'', ''com'', []] ''192.0.2.11'']),
      [(www, A, ''192.0.2.10''), (www, A, ''192.0.2.11''), (www, A, ''192.0.2.10''),
       (www, A, ''192.0.2.11''), (www, A, ''192.0.2.10'')])"
    by (simp add: run_defs sample_defs more_defs)
  with f have "r = Some (referral [a_rrset [''ns1'', ''example'', ''com'', []] ''192.0.2.11''])"
    and "sent st' =
      [(www, A, ''192.0.2.10''), (www, A, ''192.0.2.11''), (www, A, ''192.0.2.10''),
       (www, A, ''192.0.2.11''), (www, A, ''192.0.2.10'')]"
    by auto
  with f l find_recursive_terminates [of cycle_env 4 www A "''192.0.2.10''" initial_state]
  show ?thesis by (auto simp: initial_state_def)
qed

section \<open>The result set\<close>

lemma collect_rdatas_A:
  "collect_rdatas e ''A'' t rs rds [(''A'', xs), (''AAAA'', ys)] =
     [(''A'', xs @ map (\<lambda>rd. \<lparr>name = to_text e (rrset_name rs), address = rdata_str rd\<rparr>)
                     (filter (\<lambda>rd. rdata_rdtype rd = t) rds)),
      (''AAAA'', ys)]"
  by (induction rds arbitrary: xs) auto

lemma collect_rdatas_AAAA:
  "collect_rdatas e ''AAAA'' t rs rds [(''A'', xs), (''AAAA'', ys)] =
     [(''A'', xs),
      (''AAAA'', ys @ map (\<lambda>rd. \<lparr>name = to_text e (rrset_name rs), address = rdata_str rd\<rparr>)
                     (filter (\<lambda>rd. rdata_rdtype rd = t) rds))]"
  by (induction rds arbitrary: ys) auto

lemma collect_answers_A:
  "collect_answers e ''A'' t rss [(''A'', xs), (''AAAA'', ys)] =
     [(''A'', xs @ matching_records e t rss), (''AAAA'', ys)]"
  by (induction rss arbitrary: xs) (auto simp: collect_rdatas_A matching_records_def)

lemma collect_answers_AAAA:
  "collect_answers e ''AAAA'' t rss [(''A'', xs), (''AAAA'', ys)] =
     [(''A'', xs), (''AAAA'', ys @ matching_records e t rss)]"
  by (induction rss arbitrary: ys) (auto simp: collect_rdatas_AAAA matching_records_def)

lemma matching_records_Nil: "matching_records e t [] = []"
  by (simp add: matching_records_def)

text \<open>
  Claim C1. For every name, \<^verbatim>\<open>get_results\<close> returns: both calls of \<^verbatim>\<open>find\<close>
  return, and the result set has an A list and an AAAA list, each holding
  exactly the answer records of the matching call's result that have the
  requested type, as pairs of owner name and value, in their order. When
  neither call found a message, both lists are empty, and the result is a
  result set all the same: there is no error value.
\<close>

theorem get_results_records:
  "\<exists>ra st1 rb st2.
     find_msg e 0 (from_text e nm) A st = Some (ra, st1) \<and>
     find_msg e 0 (from_text e nm) AAAA st1 = Some (rb, st2) \<and>
     get_results e nm st =
       Some ([(''A'', records_of e A ra), (''AAAA'', records_of e AAAA rb)], st2) \<and>
     (ra = None \<and> rb = None \<longrightarrow>
        get_results e nm st = Some ([(''A'', []), (''AAAA'', [])], st2))"
proof -
  obtain ra st1 where a: "find_msg e 0 (from_text e nm) A st = Some (ra, st1)"
    using find_msg_returns by blast
  obtain rb st2 where b: "find_msg e 0 (from_text e nm) AAAA st1 = Some (rb, st2)"
    using find_msg_returns by blast
  have "get_results e nm st =
          Some ([(''A'', records_of e A ra), (''AAAA'', records_of e AAAA rb)], st2)"
    using a b
    by (cases ra; cases rb)
       (auto simp: get_results_def Let_def records_of_def collect_answers_A collect_answers_AAAA
          matching_records_Nil)
  with a b show ?thesis by (auto simp: records_of_def)
qed

theorem get_results_records_witness:
  "map_option fst (get_results example_env ''www.example.com'' initial_state) =
     Some [(''A'', [\<lparr>name = ''www.example.com.'', address = ''93.184.216.34''\<rparr>]), (''AAAA'', [])] \<and>
   map_option fst (get_results cycle_env ''www.example.com'' initial_state) =
     Some [(''A'', []), (''AAAA'', [])]"
proof -
  let ?m = "\<lparr>answer = [a_rrset www ''93.184.216.34''], additional = []\<rparr>"
  have n: "from_text example_env ''www.example.com'' = www"
    by (simp add: example_env_def sample_env_def www_def)
  have n': "from_text cycle_env ''www.example.com'' = www"
    by (simp add: cycle_env_def sample_env_def www_def)
  from get_results_records [of example_env "''www.example.com''" initial_state]
  obtain ra st1 rb st2 where
    a: "find_msg example_env 0 www A initial_state = Some (ra, st1)"
    and b: "find_msg example_env 0 www AAAA st1 = Some (rb, st2)"
    and g: "get_results example_env ''www.example.com'' initial_state =
       Some ([(''A'', records_of example_env A ra), (''AAAA'', records_of example_env AAAA rb)], st2)"
    unfolding n by blast
  have "map_option fst (find_msg example_env 0 www A initial_state) = Some (Some ?m)"
    by (simp add: run_defs sample_defs)
  with a have ra: "ra = Some ?m" by simp
  have "map_option fst (find_msg example_env 0 www AAAA
      (snd (the (find_msg example_env 0 www A initial_state)))) = Some None"
    by (simp add: run_defs sample_defs)
  with a b have rb: "rb = None" by simp
  have first: "map_option fst (get_results example_env ''www.example.com'' initial_state) =
     Some [(''A'', [\<lparr>name = ''www.example.com.'', address = ''93.184.216.34''\<rparr>]), (''AAAA'', [])]"
    unfolding g ra rb
    by (simp add: records_of_def matching_records_def rrset_items_def a_rrset_def
        example_env_def sample_env_def www_def)
  from get_results_records [of cycle_env "''www.example.com''" initial_state]
  obtain ra' st1' rb' st2' where
    a': "find_msg cycle_env 0 www A initial_state = Some (ra', st1')"
    and b': "find_msg cycle_env 0 www AAAA st1' = Some (rb', st2')"
    and g': "ra' = None \<and> rb' = None \<longrightarrow>
       get_results cycle_env ''www.example.com'' initial_state =
         Some ([(''A'', []), (''AAAA'', [])], st2')"
    unfolding n' by blast
  have "map_option fst (find_msg cycle_env 0 www A initial_state) = Some None"
    by (simp add: run_defs sample_defs more_defs)
  with a' have ra': "ra' = None" by simp
  have "map_option fst (find_msg cycle_env 0 www AAAA
      (snd (the (find_msg cycle_env 0 www A initial_state)))) = Some None"
    by (simp add: run_defs sample_defs more_defs)
  with a' b' have rb': "rb' = None" by simp
  from g' ra' rb' first show ?thesis by simp
qed

section \<open>The order of the walk\<close>

lemma chase_items_append:
  "chase_items chase (xs @ ys) st = and_then (chase_items chase xs st) (chase_items chase ys)"
proof (induction xs arbitrary: st)
  case Nil
  show ?case by (simp add: and_then_def)
next
  case (Cons x xs)
  show ?case
    by (cases "chase (rdata_str x) st")
       (auto simp: Cons.IH and_then_def has_answer_def split: option.splits if_splits)
qed

lemma chase_additional_append:
  "chase_additional chase (xs @ ys) st =
     and_then (chase_additional chase xs st) (chase_additional chase ys)"
proof (induction xs arbitrary: st)
  case Nil
  show ?case by (simp add: and_then_def)
next
  case (Cons x xs)
  show ?case
    by (cases "chase_items chase (rrset_items x) st")
       (auto simp: Cons.IH and_then_def split: option.splits)
qed

lemma root_loop_append:
  "root_loop e chase dp tn q d (xs @ ys) st =
     and_then (root_loop e chase dp tn q d xs st) (root_loop e chase dp tn q d ys)"
proof (induction xs arbitrary: st)
  case Nil
  show ?case by (simp add: and_then_def)
next
  case (Cons x xs)
  obtain response st1 where rr: "root_response e dp tn q d x st = (response, st1)"
    by (cases "root_response e dp tn q d x st")
  show ?case
    by (cases response; cases "chase_additional chase (additional (the response)) st1")
       (auto simp: rr Cons.IH and_then_def split: option.splits)
qed

lemma and_then_done: "and_then (Some (None, st1)) rest = rest st1"
  by (simp add: and_then_def)

lemma and_then_found: "and_then (Some (Some m, st1)) rest = Some (Some m, st1)"
  by (simp add: and_then_def)

lemma chase_additional_bind:
  "chase_additional chase (rs # rest) st =
     (if rrset_rdtype rs \<noteq> A then chase_additional chase rest st
      else and_then (chase_items chase (rrset_items rs) st) (chase_additional chase rest))"
  by (cases "chase_items chase (rrset_items rs) st")
     (auto simp: and_then_def split: option.splits)

lemma chase_additional_flat:
  "chase_additional chase rrsets st =
     chase_items chase (concat (map rrset_items (filter (\<lambda>rs. rrset_rdtype rs = A) rrsets))) st"
proof (induction rrsets arbitrary: st)
  case Nil
  show ?case by simp
next
  case (Cons rs rest)
  have "chase_additional chase rest =
      chase_items chase (concat (map rrset_items (filter (\<lambda>rs. rrset_rdtype rs = A) rest)))"
    using Cons.IH by blast
  then show ?case
    by (simp only: chase_additional_bind chase_items_append filter.simps list.map concat.simps
        split: if_splits) simp
qed

lemma chase_additional_glue:
  "chase_additional chase (additional m) st = chase_items chase (glue_addresses m) st"
  by (simp add: chase_additional_flat glue_addresses_def)

lemma root_loop_step:
  "root_loop e chase dp tn q d (root_server # rest) st =
     (case root_response e dp tn q d root_server st of
        (None, st1) \<Rightarrow> root_loop e chase dp tn q d rest st1
      | (Some r, st1) \<Rightarrow>
          if answer r \<noteq> [] then Some (Some r, st1)
          else and_then (chase_items chase (glue_addresses r) st1)
                 (root_loop e chase dp tn q d rest))"
proof -
  obtain response st1 where rr: "root_response e dp tn q d root_server st = (response, st1)"
    by (cases "root_response e dp tn q d root_server st")
  show ?thesis
  proof (cases response)
    case None
    then show ?thesis by (simp add: rr)
  next
    case (Some r)
    show ?thesis
    proof (cases "additional r = []")
      case True
      then show ?thesis
        by (simp add: rr Some glue_addresses_def and_then_def)
    next
      case False
      then show ?thesis
        by (cases "chase_items chase (glue_addresses r) st1")
           (auto simp: rr Some chase_additional_glue and_then_def split: option.splits)
    qed
  qed
qed

text \<open>
  Claim C5. \<^verbatim>\<open>find\<close> goes through the root servers in the order of
  \<^verbatim>\<open>ROOT_SERVERS\<close>. At each it takes the cached or queried response: a response
  with answers is returned at once; for a response without, the addresses of
  its additional RRsets of type A are chased in their listed order, each chase
  run to its end before the next, and the first chased message with answers
  is returned; otherwise the loop goes on to the next root server. So when the
  loop over the earlier servers has run to its end and the next server answers,
  or refers to addresses of which the earlier ones yield nothing and the next
  one a message with answers, that message is the result, and the final state
  is the one reached there, whatever addresses and servers come later: none of
  them is consulted.
\<close>

theorem find_msg_first_answer_wins:
  "(ROOT_SERVERS = earlier @ root_server # later \<and>
    root_loop e (find_recursive e (depth + 1) target_name qtype) depth target_name qtype
      (get_domain_key e target_name) earlier
      (ensure_domain (get_domain_key e target_name) st) = Some (None, st1) \<and>
    root_response e depth target_name qtype (get_domain_key e target_name) root_server st1 =
      (Some r, st2) \<and>
    answer r \<noteq> []
    \<longrightarrow> find_msg e depth target_name qtype st = Some (Some r, st2)) \<and>
   (ROOT_SERVERS = earlier @ root_server # later \<and>
    root_loop e (find_recursive e (depth + 1) target_name qtype) depth target_name qtype
      (get_domain_key e target_name) earlier
      (ensure_domain (get_domain_key e target_name) st) = Some (None, st1) \<and>
    root_response e depth target_name qtype (get_domain_key e target_name) root_server st1 =
      (Some r, st2) \<and>
    answer r = [] \<and>
    glue_addresses r = earlier_glue @ add # later_glue \<and>
    chase_items (find_recursive e (depth + 1) target_name qtype) earlier_glue st2 =
      Some (None, st3) \<and>
    find_recursive e (depth + 1) target_name qtype (rdata_str add) st3 = Some (Some m, st4) \<and>
    answer m \<noteq> []
    \<longrightarrow> find_msg e depth target_name qtype st = Some (Some m, st4)) \<and>
   find_msg e depth target_name qtype st =
     root_loop e (find_recursive e (depth + 1) target_name qtype) depth target_name qtype
       (get_domain_key e target_name) ROOT_SERVERS
       (ensure_domain (get_domain_key e target_name) st) \<and>
   root_loop e chase depth target_name qtype domain [] sa = Some (None, sa) \<and>
   root_loop e chase depth target_name qtype domain (root_server # later) sa =
     (case root_response e depth target_name qtype domain root_server sa of
        (None, sa1) \<Rightarrow> root_loop e chase depth target_name qtype domain later sa1
      | (Some r', sa1) \<Rightarrow>
          if answer r' \<noteq> [] then Some (Some r', sa1)
          else and_then (chase_items chase (glue_addresses r') sa1)
                 (root_loop e chase depth target_name qtype domain later)) \<and>
   root_loop e chase depth target_name qtype domain (earlier @ later) sa =
     and_then (root_loop e chase depth target_name qtype domain earlier sa)
       (root_loop e chase depth target_name qtype domain later) \<and>
   chase_items chase (earlier_glue @ later_glue) sa =
     and_then (chase_items chase earlier_glue sa) (chase_items chase later_glue) \<and>
   chase_items chase [add] sa =
     (case chase (rdata_str add) sa of
        None \<Rightarrow> None
      | Some (new_response, sa1) \<Rightarrow>
          if has_answer new_response then Some (new_response, sa1) else Some (None, sa1))"
proof (intro conjI impI)
  let ?k = "get_domain_key e target_name"
  let ?chase = "find_recursive e (depth + 1) target_name qtype"
  show unfold: "find_msg e depth target_name qtype st =
      root_loop e ?chase depth target_name qtype ?k ROOT_SERVERS (ensure_domain ?k st)"
    by (simp add: find_msg_unfold find_body_def Let_def)
  {
    assume h: "ROOT_SERVERS = earlier @ root_server # later \<and>
      root_loop e ?chase depth target_name qtype ?k earlier (ensure_domain ?k st) = Some (None, st1) \<and>
      root_response e depth target_name qtype ?k root_server st1 = (Some r, st2) \<and>
      answer r \<noteq> []"
    then have "root_loop e ?chase depth target_name qtype ?k (root_server # later) st1 =
        Some (Some r, st2)"
      by (simp add: root_loop_step)
    moreover from h have R: "ROOT_SERVERS = earlier @ root_server # later" by simp
    ultimately show "find_msg e depth target_name qtype st = Some (Some r, st2)"
      unfolding unfold R root_loop_append using h by (simp add: and_then_done)
  }
  {
    assume h: "ROOT_SERVERS = earlier @ root_server # later \<and>
      root_loop e ?chase depth target_name qtype ?k earlier (ensure_domain ?k st) = Some (None, st1) \<and>
      root_response e depth target_name qtype ?k root_server st1 = (Some r, st2) \<and>
      answer r = [] \<and>
      glue_addresses r = earlier_glue @ add # later_glue \<and>
      chase_items ?chase earlier_glue st2 = Some (None, st3) \<and>
      find_recursive e (depth + 1) target_name qtype (rdata_str add) st3 = Some (Some m, st4) \<and>
      answer m \<noteq> []"
    then have "chase_items ?chase (add # later_glue) st3 = Some (Some m, st4)"
      by (simp add: has_answer_def)
    with h have "chase_items ?chase (glue_addresses r) st2 = Some (Some m, st4)"
      by (simp add: chase_items_append and_then_done)
    moreover from h have rr: "root_response e depth target_name qtype ?k root_server st1 =
        (Some r, st2)" and na: "answer r = []"
      by simp_all
    ultimately have "root_loop e ?chase depth target_name qtype ?k (root_server # later) st1 =
        Some (Some m, st4)"
      unfolding root_loop_step rr by (simp add: and_then_found)
    moreover from h have R: "ROOT_SERVERS = earlier @ root_server # later" by simp
    ultimately show "find_msg e depth target_name qtype st = Some (Some m, st4)"
      unfolding unfold R root_loop_append using h by (simp add: and_then_done)
  }
  show "root_loop e chase depth target_name qtype domain [] sa = Some (None, sa)"
    by simp
  show "root_loop e chase depth target_name qtype domain (root_server # later) sa =
     (case root_response e depth target_name qtype domain root_server sa of
        (None, sa1) \<Rightarrow> root_loop e chase depth target_name qtype domain later sa1
      | (Some r', sa1) \<Rightarrow>
          if answer r' \<noteq> [] then Some (Some r', sa1)
          else and_then (chase_items chase (glue_addresses r') sa1)
                 (root_loop e chase depth target_name qtype domain later))"
    by (rule root_loop_step)
  show "root_loop e chase depth target_name qtype domain (earlier @ later) sa =
     and_then (root_loop e chase depth target_name qtype domain earlier sa)
       (root_loop e chase depth target_name qtype domain later)"
    by (rule root_loop_append)
  show "chase_items chase (earlier_glue @ later_glue) sa =
     and_then (chase_items chase earlier_glue sa) (chase_items chase later_glue)"
    by (rule chase_items_append)
  show "chase_items chase [add] sa =
     (case chase (rdata_str add) sa of
        None \<Rightarrow> None
      | Some (new_response, sa1) \<Rightarrow>
          if has_answer new_response then Some (new_response, sa1) else Some (None, sa1))"
    by (cases "chase (rdata_str add) sa") auto
qed

theorem find_msg_first_answer_wins_witness:
  "\<exists>st1 st2 st3 st4 sf1 sf2.
     root_loop referring_env (find_recursive referring_env 1 www A) 0 www A ''com''
       [''198.41.0.4''] (ensure_domain ''com'' initial_state) = Some (None, st1) \<and>
     root_response referring_env 0 www A ''com'' ''199.9.14.201'' st1 =
       (Some (referral [v6_glue, a_rrset [''a'', ''gtld'', []] ''203.0.113.9'',
          a_rrset [''b'', ''gtld'', []] ''192.0.2.1'']), st2) \<and>
     glue_addresses (referral [v6_glue, a_rrset [''a'', ''gtld'', []] ''203.0.113.9'',
          a_rrset [''b'', ''gtld'', []] ''192.0.2.1'']) =
       [\<lparr>rdata_rdtype = A, rdata_str = ''203.0.113.9''\<rparr>] @
       \<lparr>rdata_rdtype = A, rdata_str = ''192.0.2.1''\<rparr> # [] \<and>
     chase_items (find_recursive referring_env 1 www A)
       [\<lparr>rdata_rdtype = A, rdata_str = ''203.0.113.9''\<rparr>] st2 = Some (None, st3) \<and>
     find_recursive referring_env 1 www A ''192.0.2.1'' st3 =
       Some (Some \<lparr>answer = [a_rrset www ''192.0.2.80''], additional = []\<rparr>, st4) \<and>
     find_msg referring_env 0 www A initial_state =
       Some (Some \<lparr>answer = [a_rrset www ''192.0.2.80''], additional = []\<rparr>, st4) \<and>
     sent st4 =
       [(www, A, ''198.41.0.4''), (www, A, ''199.9.14.201''), (www, A, ''203.0.113.9''),
        (www, A, ''192.0.2.1'')] \<and>
     root_loop fallback_env (find_recursive fallback_env 1 www A) 0 www A ''com''
       [''198.41.0.4''] (ensure_domain ''com'' initial_state) = Some (None, sf1) \<and>
     root_response fallback_env 0 www A ''com'' ''199.9.14.201'' sf1 =
       (Some \<lparr>answer = [a_rrset www ''192.0.2.80''], additional = []\<rparr>, sf2) \<and>
     find_msg fallback_env 0 www A initial_state =
       Some (Some \<lparr>answer = [a_rrset www ''192.0.2.80''], additional = []\<rparr>, sf2) \<and>
     sent sf2 = [(www, A, ''198.41.0.4''), (www, A, ''199.9.14.201'')]"
proof -
  let ?chase = "find_recursive referring_env 1 www A"
  let ?ref = "referral [v6_glue, a_rrset [''a'', ''gtld'', []] ''203.0.113.9'',
          a_rrset [''b'', ''gtld'', []] ''192.0.2.1'']"
  let ?m = "\<lparr>answer = [a_rrset www ''192.0.2.80''], additional = []\<rparr>"
  let ?dead = "\<lparr>rdata_rdtype = A, rdata_str = ''203.0.113.9''\<rparr>"
  let ?live = "\<lparr>rdata_rdtype = A, rdata_str = ''192.0.2.1''\<rparr>"
  have k: "get_domain_key referring_env www = ''com''"
    by (simp add: get_domain_key_def referring_env_def sample_defs)
  have R: "ROOT_SERVERS = [''198.41.0.4''] @ ''199.9.14.201'' # tl (tl ROOT_SERVERS)"
    by (simp add: ROOT_SERVERS_def)
  define st1 where "st1 = snd (root_response referring_env 0 www A ''com'' ''198.41.0.4''
      (ensure_domain ''com'' initial_state))"
  define st2 where "st2 = snd (root_response referring_env 0 www A ''com'' ''199.9.14.201'' st1)"
  define st3 where "st3 = snd (the (find_recursive referring_env 1 www A ''203.0.113.9'' st2))"
  define st4 where "st4 = snd (the (find_recursive referring_env 1 www A ''192.0.2.1'' st3))"
  have l1: "root_loop referring_env ?chase 0 www A ''com'' [''198.41.0.4'']
       (ensure_domain ''com'' initial_state) = Some (None, st1)"
    unfolding st1_def by (simp add: run_defs sample_defs more_defs)
  have l2: "root_response referring_env 0 www A ''com'' ''199.9.14.201'' st1 = (Some ?ref, st2)"
    unfolding st2_def st1_def by (simp add: run_defs sample_defs more_defs)
  have g: "glue_addresses ?ref = [?dead] @ ?live # []"
    by (simp add: glue_addresses_def referral_def a_rrset_def v6_glue_def rrset_items_def)
  have l3: "chase_items ?chase [?dead] st2 = Some (None, st3)"
    unfolding st3_def st2_def st1_def by (simp add: run_defs sample_defs more_defs)
  have l4: "find_recursive referring_env 1 www A ''192.0.2.1'' st3 = Some (Some ?m, st4)"
    unfolding st4_def st3_def st2_def st1_def by (simp add: run_defs sample_defs more_defs)
  have s4: "sent st4 =
       [(www, A, ''198.41.0.4''), (www, A, ''199.9.14.201''), (www, A, ''203.0.113.9''),
        (www, A, ''192.0.2.1'')]"
    unfolding st4_def st3_def st2_def st1_def by (simp add: run_defs sample_defs more_defs)
  note w = find_msg_first_answer_wins [where e = referring_env and depth = 0
      and target_name = www and qtype = A and st = initial_state
      and earlier = "[''198.41.0.4'']" and root_server = "''199.9.14.201''"
      and later = "tl (tl ROOT_SERVERS)" and ?st1.0 = st1 and r = ?ref and ?st2.0 = st2
      and earlier_glue = "[?dead]" and add = ?live and later_glue = "[]" and ?st3.0 = st3
      and m = ?m and ?st4.0 = st4]
  have f: "find_msg referring_env 0 www A initial_state = Some (Some ?m, st4)"
    using w R l1 l2 g l3 l4 by (simp add: k referral_def)
  have kf: "get_domain_key fallback_env www = ''com''"
    by (simp add: get_domain_key_def fallback_env_def sample_defs)
  define sf1 where "sf1 = snd (root_response fallback_env 0 www A ''com'' ''198.41.0.4''
      (ensure_domain ''com'' initial_state))"
  define sf2 where "sf2 = snd (root_response fallback_env 0 www A ''com'' ''199.9.14.201'' sf1)"
  have f1: "root_loop fallback_env (find_recursive fallback_env 1 www A) 0 www A ''com''
       [''198.41.0.4''] (ensure_domain ''com'' initial_state) = Some (None, sf1)"
    unfolding sf1_def by (simp add: run_defs sample_defs more_defs)
  have f2: "root_response fallback_env 0 www A ''com'' ''199.9.14.201'' sf1 = (Some ?m, sf2)"
    unfolding sf2_def sf1_def by (simp add: run_defs sample_defs more_defs)
  have sf: "sent sf2 = [(www, A, ''198.41.0.4''), (www, A, ''199.9.14.201'')]"
    unfolding sf2_def sf1_def by (simp add: run_defs sample_defs more_defs)
  note wf = find_msg_first_answer_wins [where e = fallback_env and depth = 0
      and target_name = www and qtype = A and st = initial_state
      and earlier = "[''198.41.0.4'']" and root_server = "''199.9.14.201''"
      and later = "tl (tl ROOT_SERVERS)" and ?st1.0 = sf1 and r = ?m and ?st2.0 = sf2]
  have ff: "find_msg fallback_env 0 www A initial_state = Some (Some ?m, sf2)"
    using wf R f1 f2 by (simp add: kf)
  from l1 l2 g l3 l4 f s4 f1 f2 ff sf show ?thesis by blast
qed

section \<open>Entries are written once\<close>

text \<open>
  Claim C2 says that a root server whose failure is cached is never queried
  again. The cache is read by the root loop of \<^verbatim>\<open>find\<close> only; \<^verbatim>\<open>find_recursive\<close>
  sends its request to whatever address a referral names. The first root server
  times out, the second refers to the address of the first: the failure of the
  first is recorded for \<open>com\<close>, and still the first is queried again, once
  within the same call and once more by a later call for another name under
  \<open>com\<close>.
\<close>

theorem failed_root_queried_again_counterexample:
  "entry_after (find_msg back_env 0 www A initial_state) ''com'' ''198.41.0.4'' = Some (Some None) \<and>
   queries_to ''198.41.0.4'' (find_msg back_env 0 www A initial_state) =
     Some [(www, A, ''198.41.0.4''), (www, A, ''198.41.0.4'')] \<and>
   queries_to ''198.41.0.4''
     (later_find back_env alias_nm AAAA (find_msg back_env 0 www A initial_state)) =
     Some [(www, A, ''198.41.0.4''), (www, A, ''198.41.0.4''), (alias_nm, AAAA, ''198.41.0.4'')] \<and>
   get_domain_key back_env alias_nm = ''com'' \<and>
   get_domain_key back_env www = ''com'' \<and>
   ''198.41.0.4'' \<in> set ROOT_SERVERS"
  by (simp add: entry_after_def later_find_def queries_to_def run_defs sample_defs more_defs)

lemma root_response_miss:
  assumes "entry st k srv = None"
  shows "root_response e depth n t k srv st =
           (case call_udp e depth (sent st) (n, t, srv) of Inl err \<Rightarrow> None | Inr m \<Rightarrow> Some m,
            snd (root_response e depth n t k srv st))"
    and "entry (snd (root_response e depth n t k srv st)) k srv =
           Some (case call_udp e depth (sent st) (n, t, srv) of Inl err \<Rightarrow> None | Inr m \<Rightarrow> Some m)"
    and "sent (snd (root_response e depth n t k srv st)) = sent st @ [(n, t, srv)]"
  using assms
  by (cases "inner_cache st k srv";
      auto simp: root_response_def entry_def inner_cache_def make_request_def Let_def
           split: sum.splits)+

text \<open>
  Claim C2, amended. An entry of the domain cache, once present, is the same
  after every call of \<^verbatim>\<open>find\<close> and of \<^verbatim>\<open>find_recursive\<close>: nothing overwrites or
  removes it. Where the root loop finds an entry, it takes the cached outcome,
  for any name with that key and any type, and leaves the state as it is, so it
  sends nothing. Where it finds none, it sends one request, and both what it
  returns and the entry it writes are the outcome of that request: the response,
  or \<^verbatim>\<open>None\<close> when the transport failed. When the cached outcome is the \<^verbatim>\<open>None\<close>
  of a failed query, the root loop passes over that root server: no query, no
  referral, no answer; and when that holds of every root server, \<^verbatim>\<open>find\<close>
  returns \<^verbatim>\<open>None\<close> and has sent nothing at all. Only the root loop is bound by
  the cache: \<^verbatim>\<open>find_recursive\<close> does not read it.
\<close>

theorem cache_entry_written_once:
  "(find_msg e depth target_name qtype st = Some (res, st') \<and> entry st k srv = Some r \<longrightarrow>
      entry st' k srv = Some r) \<and>
   (find_recursive e depth target_name qtype ip_addr st = Some (res, st') \<and>
    entry st k srv = Some r \<longrightarrow>
      entry st' k srv = Some r) \<and>
   (entry st k srv = Some r \<longrightarrow>
      root_response e later_depth later_name later_type k srv st = (r, st)) \<and>
   (entry st k srv = None \<longrightarrow>
      fst (root_response e later_depth later_name later_type k srv st) =
        (case call_udp e later_depth (sent st) (later_name, later_type, srv) of
           Inl err \<Rightarrow> None | Inr m \<Rightarrow> Some m) \<and>
      entry (snd (root_response e later_depth later_name later_type k srv st)) k srv =
        Some (case call_udp e later_depth (sent st) (later_name, later_type, srv) of
                Inl err \<Rightarrow> None | Inr m \<Rightarrow> Some m) \<and>
      sent (snd (root_response e later_depth later_name later_type k srv st)) =
        sent st @ [(later_name, later_type, srv)]) \<and>
   (entry st k srv = Some None \<longrightarrow>
      root_loop e chase later_depth later_name later_type k (srv # rest) st =
        root_loop e chase later_depth later_name later_type k rest st) \<and>
   ((\<forall>root_server\<in>set ROOT_SERVERS.
        entry st (get_domain_key e later_name) root_server = Some None) \<longrightarrow>
      find_msg e later_depth later_name later_type st = Some (None, st))"
proof (intro conjI impI)
  assume "find_msg e depth target_name qtype st = Some (res, st') \<and> entry st k srv = Some r"
  then show "entry st' k srv = Some r" using find_msg_entry_kept by blast
next
  assume "find_recursive e depth target_name qtype ip_addr st = Some (res, st') \<and>
    entry st k srv = Some r"
  then show "entry st' k srv = Some r" using find_recursive_entry_kept by blast
next
  assume "entry st k srv = Some r"
  then show "root_response e later_depth later_name later_type k srv st = (r, st)"
    by (rule root_response_cached)
next
  assume n: "entry st k srv = None"
  show "fst (root_response e later_depth later_name later_type k srv st) =
        (case call_udp e later_depth (sent st) (later_name, later_type, srv) of
           Inl err \<Rightarrow> None | Inr m \<Rightarrow> Some m)"
    using root_response_miss(1) [OF n, of e later_depth later_name later_type]
    by (metis fst_conv)
next
  assume n: "entry st k srv = None"
  then show "entry (snd (root_response e later_depth later_name later_type k srv st)) k srv =
        Some (case call_udp e later_depth (sent st) (later_name, later_type, srv) of
                Inl err \<Rightarrow> None | Inr m \<Rightarrow> Some m)"
    by (rule root_response_miss(2))
next
  assume n: "entry st k srv = None"
  then show "sent (snd (root_response e later_depth later_name later_type k srv st)) =
        sent st @ [(later_name, later_type, srv)]"
    by (rule root_response_miss(3))
next
  assume "entry st k srv = Some None"
  then show "root_loop e chase later_depth later_name later_type k (srv # rest) st =
      root_loop e chase later_depth later_name later_type k rest st"
    by (rule root_loop_skips_failure)
next
  assume "\<forall>root_server\<in>set ROOT_SERVERS.
      entry st (get_domain_key e later_name) root_server = Some None"
  then show "find_msg e later_depth later_name later_type st = Some (None, st)"
    by (rule find_msg_all_failed)
qed

theorem cache_entry_written_once_witness:
  "entry failed_root_state ''com'' ''198.41.0.4'' = Some None \<and>
   (\<exists>st'. find_msg example_env 0 www A failed_root_state = Some (None, st') \<and>
          entry st' ''com'' ''198.41.0.4'' = Some None) \<and>
   root_response example_env 0 alias_nm AAAA ''com'' ''198.41.0.4'' failed_root_state =
     (None, failed_root_state) \<and>
   root_loop example_env (find_recursive example_env 1 alias_nm AAAA) 0 alias_nm AAAA ''com''
     [''198.41.0.4''] failed_root_state = Some (None, failed_root_state) \<and>
   entry initial_state ''com'' ''198.41.0.4'' = None \<and>
   fst (root_response back_env 0 www A ''com'' ''198.41.0.4'' initial_state) = None \<and>
   entry (snd (root_response back_env 0 www A ''com'' ''198.41.0.4'' initial_state))
     ''com'' ''198.41.0.4'' = Some None \<and>
   sent (snd (root_response back_env 0 www A ''com'' ''198.41.0.4'' initial_state)) =
     [(www, A, ''198.41.0.4'')] \<and>
   entry initial_state ''com'' ''199.9.14.201'' = None \<and>
   entry (snd (root_response back_env 0 www A ''com'' ''199.9.14.201'' initial_state))
     ''com'' ''199.9.14.201'' =
     Some (Some (referral [a_rrset [''a'', ''root-servers'', ''net'', []] ''198.41.0.4''])) \<and>
   get_domain_key example_env alias_nm = ''com'' \<and>
   entry all_failed_state ''com'' ''202.12.27.33'' = Some None \<and>
   find_msg example_env 0 alias_nm AAAA all_failed_state = Some (None, all_failed_state)"
proof -
  have e: "entry failed_root_state ''com'' ''198.41.0.4'' = Some None"
    by (simp add: entry_def inner_cache_def failed_root_state_def)
  have "map_option fst (find_msg example_env 0 www A failed_root_state) = Some None"
    by (simp add: run_defs sample_defs failed_root_state_def)
  then obtain st' where f: "find_msg example_env 0 www A failed_root_state = Some (None, st')"
    by (cases "find_msg example_env 0 www A failed_root_state") auto
  have i: "entry initial_state ''com'' ''198.41.0.4'' = None"
    by (simp add: entry_def inner_cache_def initial_state_def)
  have i2: "entry initial_state ''com'' ''199.9.14.201'' = None"
    by (simp add: entry_def inner_cache_def initial_state_def)
  have k: "get_domain_key example_env alias_nm = ''com''"
    by (simp add: get_domain_key_def example_env_def sample_env_def alias_nm_def)
  have a: "\<forall>root_server\<in>set ROOT_SERVERS.
      entry all_failed_state (get_domain_key example_env alias_nm) root_server = Some None"
    by (simp add: k all_failed_state_def entry_def inner_cache_def)
  have u1: "call_udp back_env 0 [] (www, A, ''198.41.0.4'') = Inl Timeout"
    by (simp add: call_udp_def more_defs sample_defs)
  have u2: "call_udp back_env 0 [] (www, A, ''199.9.14.201'') =
      Inr (referral [a_rrset [''a'', ''root-servers'', ''net'', []] ''198.41.0.4''])"
    by (simp add: call_udp_def more_defs sample_defs)
  have s0: "sent initial_state = []" by (simp add: initial_state_def)
  note w1 = cache_entry_written_once [where e = example_env and depth = 0
      and target_name = www and qtype = A and st = failed_root_state and res = None
      and st' = st' and k = "''com''" and srv = "''198.41.0.4''" and r = None
      and later_depth = 0 and later_name = alias_nm and later_type = AAAA
      and chase = "find_recursive example_env 1 alias_nm AAAA" and rest = "[]"]
  note w2 = cache_entry_written_once [where e = back_env and st = initial_state
      and k = "''com''" and srv = "''198.41.0.4''"
      and later_depth = 0 and later_name = www and later_type = A]
  note w3 = cache_entry_written_once [where e = back_env and st = initial_state
      and k = "''com''" and srv = "''199.9.14.201''"
      and later_depth = 0 and later_name = www and later_type = A]
  note w4 = cache_entry_written_once [where e = example_env and st = all_failed_state
      and later_depth = 0 and later_name = alias_nm and later_type = AAAA]
  from w4 a have p9: "find_msg example_env 0 alias_nm AAAA all_failed_state =
      Some (None, all_failed_state)"
    by blast
  have p8: "entry all_failed_state ''com'' ''202.12.27.33'' = Some None"
    by (simp add: all_failed_state_def entry_def inner_cache_def ROOT_SERVERS_def)
  from w1 e f have p1: "entry st' ''com'' ''198.41.0.4'' = Some None" by blast
  from w1 e have p2: "root_response example_env 0 alias_nm AAAA ''com'' ''198.41.0.4''
      failed_root_state = (None, failed_root_state)"
    by blast
  from w1 e have "root_loop example_env (find_recursive example_env 1 alias_nm AAAA) 0
      alias_nm AAAA ''com'' [''198.41.0.4''] failed_root_state =
    root_loop example_env (find_recursive example_env 1 alias_nm AAAA) 0
      alias_nm AAAA ''com'' [] failed_root_state"
    by blast
  then have p3: "root_loop example_env (find_recursive example_env 1 alias_nm AAAA) 0
      alias_nm AAAA ''com'' [''198.41.0.4''] failed_root_state = Some (None, failed_root_state)"
    by simp
  from w2 i have "fst (root_response back_env 0 www A ''com'' ''198.41.0.4'' initial_state) =
        (case call_udp back_env 0 (sent initial_state) (www, A, ''198.41.0.4'') of
           Inl err \<Rightarrow> None | Inr m \<Rightarrow> Some m) \<and>
      entry (snd (root_response back_env 0 www A ''com'' ''198.41.0.4'' initial_state))
        ''com'' ''198.41.0.4'' =
        Some (case call_udp back_env 0 (sent initial_state) (www, A, ''198.41.0.4'') of
                Inl err \<Rightarrow> None | Inr m \<Rightarrow> Some m) \<and>
      sent (snd (root_response back_env 0 www A ''com'' ''198.41.0.4'' initial_state)) =
        sent initial_state @ [(www, A, ''198.41.0.4'')]"
    by blast
  then have p4: "fst (root_response back_env 0 www A ''com'' ''198.41.0.4'' initial_state) = None \<and>
      entry (snd (root_response back_env 0 www A ''com'' ''198.41.0.4'' initial_state))
        ''com'' ''198.41.0.4'' = Some None \<and>
      sent (snd (root_response back_env 0 www A ''com'' ''198.41.0.4'' initial_state)) =
        [(www, A, ''198.41.0.4'')]"
    by (simp add: s0 u1)
  from w3 i2 have "entry (snd (root_response back_env 0 www A ''com'' ''199.9.14.201''
        initial_state)) ''com'' ''199.9.14.201'' =
        Some (case call_udp back_env 0 (sent initial_state) (www, A, ''199.9.14.201'') of
                Inl err \<Rightarrow> None | Inr m \<Rightarrow> Some m)"
    by blast
  then have p5: "entry (snd (root_response back_env 0 www A ''com'' ''199.9.14.201''
        initial_state)) ''com'' ''199.9.14.201'' =
      Some (Some (referral [a_rrset [''a'', ''root-servers'', ''net'', []] ''198.41.0.4'']))"
    by (simp add: s0 u2)
  from e f p1 p2 p3 i p4 i2 p5 k p8 p9 show ?thesis by blast
qed

section \<open>One query of the root loop for each entry\<close>

lemma find_msg_cache_filled_once:
  assumes "find_msg e depth tn q st = Some (res, st')" and "cache_filled_once st"
  shows "cache_filled_once st'"
proof -
  have "cache_filled_once st \<longrightarrow> cache_filled_once st'"
    by (rule find_msg_rel [where Q = "\<lambda>s s'. cache_filled_once s \<longrightarrow> cache_filled_once s'",
          OF _ _ _ _ _ assms(1)])
       (auto simp: cache_filled_once_def entry_make_request entry_ensure_domain
          entry_root_response root_sent_make_request root_sent_ensure_domain
          root_sent_root_response)
  with assms(2) show ?thesis by blast
qed

text \<open>
  Claim C10 says that at most one query is ever sent to a root server for one
  key. The chase sends its queries without looking at the cache: when the first
  root server refers to the address of the second, and the second has no
  answer, the second root server is queried twice for the same name, once by
  the chase and once by the root loop.
\<close>

theorem root_queried_twice_counterexample:
  "queries_to ''199.9.14.201'' (find_msg glue_env 0 www A initial_state) =
     Some [(www, A, ''199.9.14.201''), (www, A, ''199.9.14.201'')] \<and>
   ''199.9.14.201'' \<in> set ROOT_SERVERS \<and>
   get_domain_key glue_env www = ''com''"
  by (simp add: queries_to_def run_defs sample_defs more_defs)

lemma cache_filled_once_initial: "cache_filled_once initial_state"
  by (simp add: cache_filled_once_def initial_state_def entry_def inner_cache_def)

lemma distinct_count_list:
  "distinct xs \<Longrightarrow> count_list xs x = (if x \<in> set xs then 1 else 0)"
  by (induction xs) auto

lemma count_root_sent:
  "cache_filled_once st \<Longrightarrow>
   count_list (root_sent st) (k, srv) = (if entry st k srv = None then 0 else 1)"
  by (auto simp: cache_filled_once_def distinct_count_list)

text \<open>
  Claim C10, amended. The key of the cache holds no record type. In a process
  that starts with an empty cache, the root loop of \<^verbatim>\<open>find\<close> has sent, for every
  pair of key and root server, exactly one query if the pair has an entry and
  none otherwise, after every call that returns; entries are kept; and a later
  call for any name with the same key and any type takes the cached response as
  it is, sending nothing.
\<close>

theorem root_loop_queries_once:
  assumes "find_msg e depth target_name qtype st = Some (res, st')" and "cache_filled_once st"
  shows "cache_filled_once st' \<and>
         count_list (root_sent st') (k, srv) = (if entry st' k srv = None then 0 else 1) \<and>
         (entry st k srv = Some r \<longrightarrow> entry st' k srv = Some r) \<and>
         (entry st' k srv = Some r \<and> get_domain_key e later_name = k \<longrightarrow>
            root_response e later_depth later_name later_type (get_domain_key e later_name) srv st' =
              (r, st'))"
  using find_msg_cache_filled_once [OF assms] find_msg_entry_kept [OF assms(1)]
  by (auto simp: count_root_sent root_response_cached)

theorem root_loop_queries_once_witness:
  "cache_filled_once initial_state \<and>
   (\<exists>st'. find_msg glue_env 0 www A initial_state = Some (None, st') \<and>
          cache_filled_once st' \<and>
          count_list (root_sent st') (''com'', ''199.9.14.201'') = 1 \<and>
          root_response glue_env 0 alias_nm AAAA (get_domain_key glue_env alias_nm)
            ''199.9.14.201'' st' = (Some \<lparr>answer = [], additional = []\<rparr>, st'))"
proof -
  have "map_option (\<lambda>(r, s). (r, entry s ''com'' ''199.9.14.201''))
          (find_msg glue_env 0 www A initial_state) =
        Some (None, Some (Some \<lparr>answer = [], additional = []\<rparr>))"
    by (simp add: run_defs sample_defs more_defs)
  then obtain st' where f: "find_msg glue_env 0 www A initial_state = Some (None, st')"
    and en: "entry st' ''com'' ''199.9.14.201'' = Some (Some \<lparr>answer = [], additional = []\<rparr>)"
    by (cases "find_msg glue_env 0 www A initial_state") auto
  have k: "get_domain_key glue_env alias_nm = ''com''"
    by (simp add: get_domain_key_def more_defs sample_defs)
  from root_loop_queries_once [OF f cache_filled_once_initial, where k = "''com''"
      and srv = "''199.9.14.201''" and r = "Some \<lparr>answer = [], additional = []\<rparr>"
      and later_name = alias_nm and later_type = AAAA and later_depth = 0]
    en k f cache_filled_once_initial
  show ?thesis by auto
qed

end
